theory Spec2Isabelle
  imports Main
begin

section \<open>JavaScript values used by the catalogue script\<close>

text \<open>
  The script \<^verbatim>\<open>src/app.js\<close> handles three kinds of values: numbers that are item
  identifiers and counts, strings, and \<^verbatim>\<open>undefined\<close>. Identifiers and counts are
  modelled as \<open>int\<close>. A JavaScript number is a double: up to \<open>2^53 - 1\<close> in absolute
  value (the safe integers) every integer is exact, subtraction of 1 is exact and the
  number prints as its decimal numeral; beyond them \<^verbatim>\<open>index - 1\<close> rounds and, from
  \<open>10^21\<close> on, a number prints in exponent form. The model agrees with the script on
  the safe integers, and the theorems on \<^verbatim>\<open>getImageSrc\<close>, on \<^verbatim>\<open>getName\<close> and on
  loading a batch twice, which show the exact index or the printed identifier, assume
  the identifier is one. Strings are byte strings (the source text is ASCII throughout). A
  value that may be \<^verbatim>\<open>undefined\<close> is an \<open>option\<close>, with \<open>None\<close> for
  \<^verbatim>\<open>undefined\<close>; the result of \<^verbatim>\<open>%\<close> is an \<open>option\<close> with \<open>None\<close> for NaN.
\<close>

definition MAX_SAFE_INTEGER :: int where
  "MAX_SAFE_INTEGER = 9007199254740991"

definition safe_integer :: "int \<Rightarrow> bool" where
  "safe_integer i = (- MAX_SAFE_INTEGER \<le> i \<and> i \<le> MAX_SAFE_INTEGER)"

datatype js_value = Undefined | Num int | Str string

definition digit_char :: "nat \<Rightarrow> char" where
  "digit_char d = ''0123456789'' ! d"

text \<open>
  A number that is an integer prints as its decimal digits, most significant first,
  after a minus sign when it is negative.
\<close>

function decimal_digits :: "nat \<Rightarrow> string \<Rightarrow> string" where
  "decimal_digits n acc =
     (if n < 10 then digit_char n # acc
      else decimal_digits (n div 10) (digit_char (n mod 10) # acc))"
  by pat_completeness auto
termination
  by (relation "measure fst") auto

declare decimal_digits.simps [simp del]

definition number_to_string :: "int \<Rightarrow> string" where
  "number_to_string i =
     (if 0 \<le> i then decimal_digits (nat i) []
      else CHR ''-'' # decimal_digits (nat (- i)) [])"

text \<open>Conversion to string as a template literal \<^verbatim>\<open>${v}\<close> performs it.\<close>

fun to_string :: "js_value \<Rightarrow> string" where
  "to_string Undefined = ''undefined''"
| "to_string (Num i) = number_to_string i"
| "to_string (Str s) = s"

definition str_or_undefined :: "string option \<Rightarrow> js_value" where
  "str_or_undefined v = (case v of None \<Rightarrow> Undefined | Some s \<Rightarrow> Str s)"

text \<open>
  \<^verbatim>\<open>a || b\<close> where \<open>a\<close> is a string or \<^verbatim>\<open>undefined\<close> and \<open>b\<close> a string: \<open>a\<close> is falsy
  when it is \<^verbatim>\<open>undefined\<close> or the empty string.
\<close>

definition js_or :: "string option \<Rightarrow> string \<Rightarrow> string" where
  "js_or a b = (case a of None \<Rightarrow> b | Some s \<Rightarrow> if s = [] then b else s)"

text \<open>
  \<^verbatim>\<open>a % b\<close> on integers: the remainder has the sign of the dividend, and is NaN
  for a zero divisor.
\<close>

definition js_rem :: "int \<Rightarrow> int \<Rightarrow> int option" where
  "js_rem a b = (if b = 0 then None else Some (sgn a * (\<bar>a\<bar> mod \<bar>b\<bar>)))"

text \<open>
  \<^verbatim>\<open>xs[i]\<close> on an array: an element for an integer index in range, \<^verbatim>\<open>undefined\<close>
  for every other number, NaN included.
\<close>

definition array_get :: "'a list \<Rightarrow> int option \<Rightarrow> 'a option" where
  "array_get xs i =
     (case i of
        None \<Rightarrow> None
      | Some k \<Rightarrow> if 0 \<le> k \<and> k < int (length xs) then Some (xs ! nat k) else None)"

text \<open>
  \<^verbatim>\<open>Array.from({ length: n }, (_, i) => f(i))\<close>: a length that is not positive gives
  the empty array.
\<close>

definition array_from :: "int \<Rightarrow> (int \<Rightarrow> 'a) \<Rightarrow> 'a list" where
  "array_from n f = map f [0..n - 1]"

section \<open>Configuration\<close>

text \<open>
  The constants of \<^verbatim>\<open>JEWELLERY_CONFIG\<close>. The functions below take the configuration
  as their first argument, so that a property shows how it depends on the constants;
  \<open>JEWELLERY_CONFIG\<close> is the configuration the script runs with.
\<close>

record config =
  BASE_PATH :: string
  IMAGE_PREFIX :: string
  TOTAL_IMAGES :: int
  INITIAL_LOAD :: int
  BATCH_SIZE :: int
  FALLBACK_IMAGES :: "string list"

definition JEWELLERY_CONFIG :: config where
  "JEWELLERY_CONFIG =
     \<lparr> BASE_PATH = ''images/'',
       IMAGE_PREFIX = ''jewel-'',
       TOTAL_IMAGES = 36,
       INITIAL_LOAD = 8,
       BATCH_SIZE = 8,
       FALLBACK_IMAGES =
         [''https://images.unsplash.com/photo-1535632066927-ab7c9ab60908?ixlib=rb-4.0.3&auto=format&fit=crop&w=600&q=80'',
          ''https://images.unsplash.com/photo-1594576722512-582d5577dc56?ixlib=rb-4.0.3&auto=format&fit=crop&w=600&q=80'',
          ''https://images.unsplash.com/photo-1599643478518-a784e5dc4c8f?ixlib=rb-4.0.3&auto=format&fit=crop&w=600&q=80'',
          ''https://images.unsplash.com/photo-1611591437281-460bfbe1220a?ixlib=rb-4.0.3&auto=format&fit=crop&w=600&q=80'',
          ''https://images.unsplash.com/photo-1596944090625-7d7c2e6ab234?ixlib=rb-4.0.3&auto=format&fit=crop&w=600&q=80''] \<rparr>"

definition JEWELLERY_NAMES :: "string list" where
  "JEWELLERY_NAMES =
     [''Jewellery'', ''Jewellery'', ''Jewellery'', ''Jewellery'', ''Jewellery'', ''Jewellery'',
      ''Jewellery'', ''Jewellery'', ''Jewellery'', ''Jewellery'', ''Jewellery'', ''Jewellery'',
      ''Jewellery'', ''Jewellery'', ''Jewellery'', ''Jewellery'', ''Jewellery'', ''Jewellery'',
      ''Jewellery'', ''Jewellery'', ''Jewellery'', ''Jewellery'', ''Jewellery'', ''Jewellery'',
      ''Jewellery'', ''Jewellery'', ''Jewellery'', ''Jewellery'', ''Jewellery'', ''Jewellery'',
      ''Jewellery'', ''Jewellery'', ''Jewellery'', ''Jewellery'', ''Jewellery'', ''Jewellery'']"

section \<open>Percent-encoding\<close>

text \<open>
  \<^verbatim>\<open>encodeURIComponent\<close> on a byte string: the unreserved characters of ECMAScript
  (letters, digits and \<^verbatim>\<open>- _ . ! ~ * ' ( )\<close>) stay, every other byte becomes
  \<^verbatim>\<open>%XX\<close> with upper-case hexadecimal digits.
\<close>

definition uriUnescaped :: "char \<Rightarrow> bool" where
  "uriUnescaped c =
     (c \<in> set ''ABCDEFGHIJKLMNOPQRSTUVWXYZabcdefghijklmnopqrstuvwxyz0123456789-_.!~*'()'')"

definition hex_digit :: "nat \<Rightarrow> char" where
  "hex_digit d = ''0123456789ABCDEF'' ! d"

definition percent_byte :: "char \<Rightarrow> string" where
  "percent_byte c =
     [CHR ''%'', hex_digit (of_char c div 16), hex_digit (of_char c mod 16)]"

definition encodeURIComponent :: "string \<Rightarrow> string" where
  "encodeURIComponent s =
     concat (map (\<lambda>c. if uriUnescaped c then [c] else percent_byte c) s)"

text \<open>
  Percent-decoding, the inverse a reader of the link applies to its \<^verbatim>\<open>text\<close>
  parameter: \<^verbatim>\<open>%XX\<close> with two hexadecimal digits is one byte, a \<^verbatim>\<open>%\<close> followed by
  anything else is malformed (\<open>None\<close>), every other character stands for itself.
\<close>

definition hex_value :: "char \<Rightarrow> nat option" where
  "hex_value c =
     (let n = (of_char c :: nat)
      in if 48 \<le> n \<and> n \<le> 57 then Some (n - 48)
         else if 65 \<le> n \<and> n \<le> 70 then Some (n - 55)
         else if 97 \<le> n \<and> n \<le> 102 then Some (n - 87)
         else None)"

fun percent_decode :: "string \<Rightarrow> string option" where
  "percent_decode [] = Some []"
| "percent_decode (c # cs) =
     (if c = CHR ''%'' then
        (case cs of
           h # l # rest \<Rightarrow>
             (case (hex_value h, hex_value l) of
                (Some a, Some b) \<Rightarrow>
                  map_option (\<lambda>r. char_of (16 * a + b) # r) (percent_decode rest)
              | _ \<Rightarrow> None)
         | _ \<Rightarrow> None)
      else map_option (\<lambda>r. c # r) (percent_decode cs))"

text \<open>\<^verbatim>\<open>s.includes(t)\<close>: \<open>t\<close> occurs in \<open>s\<close> as a contiguous substring.\<close>

fun starts_with :: "string \<Rightarrow> string \<Rightarrow> bool" where
  "starts_with s [] = True"
| "starts_with [] (y # ys) = False"
| "starts_with (x # xs) (y # ys) = (x = y \<and> starts_with xs ys)"

fun str_includes :: "string \<Rightarrow> string \<Rightarrow> bool" where
  "str_includes [] t = (t = [])"
| "str_includes (x # xs) t = (starts_with (x # xs) t \<or> str_includes xs t)"

section \<open>JewelleryImageManager\<close>

definition getFallbackImage :: "config \<Rightarrow> int \<Rightarrow> string option" where
  "getFallbackImage cfg index =
     (let fallbackIndex = js_rem (index - 1) (int (length (FALLBACK_IMAGES cfg)))
      in array_get (FALLBACK_IMAGES cfg) fallbackIndex)"

definition getImageSrc :: "config \<Rightarrow> int \<Rightarrow> string option" where
  "getImageSrc cfg index =
     (let localPath = BASE_PATH cfg @ IMAGE_PREFIX cfg @ number_to_string index @ ''.jpg''
      in if index \<le> TOTAL_IMAGES cfg then Some localPath
         else getFallbackImage cfg index)"

section \<open>JewelleryItem\<close>

record jewellery_item =
  item_id :: int
  item_name :: string
  imageSrc :: "string option"

definition getName :: "int \<Rightarrow> string" where
  "getName this_id =
     js_or (array_get JEWELLERY_NAMES (Some (this_id - 1)))
           (''Jewellery Item '' @ number_to_string this_id)"

definition JewelleryItem :: "config \<Rightarrow> int \<Rightarrow> jewellery_item" where
  "JewelleryItem cfg i =
     \<lparr> item_id = i, item_name = getName i, imageSrc = getImageSrc cfg i \<rparr>"

definition getWhatsAppMessage :: "jewellery_item \<Rightarrow> string" where
  "getWhatsAppMessage this =
     (let message =
            ''Hi Sisters Sparkles, I'm interested in buying '' @ item_name this
            @ ''. Please share details and price.''
      in encodeURIComponent message)"

text \<open>
  Reading a data property of an item by name. The constructor assigns \<^verbatim>\<open>id\<close>,
  \<^verbatim>\<open>name\<close> and \<^verbatim>\<open>imageSrc\<close> and nothing else, and the class declares no accessor,
  so every other data property reads as \<^verbatim>\<open>undefined\<close>.
\<close>

definition item_property :: "jewellery_item \<Rightarrow> string \<Rightarrow> js_value" where
  "item_property j p =
     (if p = ''id'' then Num (item_id j)
      else if p = ''name'' then Str (item_name j)
      else if p = ''imageSrc'' then str_or_undefined (imageSrc j)
      else Undefined)"

section \<open>JewelleryGridManager\<close>

text \<open>
  The part of the page the grid manager reads and writes. A card is the element
  \<^verbatim>\<open>createJewelleryCard\<close> builds, kept as the attribute values its template
  interpolates. An element the page may lack is an \<open>option\<close>, \<open>None\<close> when
  \<^verbatim>\<open>getElementById\<close> returned \<^verbatim>\<open>null\<close>; for an element whose only state is the
  class \<^verbatim>\<open>hidden\<close> the value says whether it carries that class. The set of loaded
  identifiers is a JavaScript \<^verbatim>\<open>Set\<close>, kept as the list of its members in insertion
  order. Image loading and the reveal animation run in timers and browser events
  after the methods return and change none of this state; they are left out.
\<close>

record whatsapp_button =
  data_item_id :: "string option"
  data_item_name :: "string option"
  data_image_src :: "string option"
  data_netlify_src :: "string option"

record card =
  card_item_id :: string
  img_data_src :: string
  img_alt :: string
  whatsapp_btn :: whatsapp_button

record view_more_button =
  disabled :: bool
  textContent :: string

record manager =
  grid :: "card list option"
  loadingIndicator :: "bool option"
  viewMoreContainer :: "bool option"
  viewMoreBtn :: "view_more_button option"
  loadedItems :: "int list"
  isInitializing :: bool

datatype error = TypeError

definition set_has :: "int list \<Rightarrow> int \<Rightarrow> bool" where
  "set_has xs x = (x \<in> set xs)"

definition set_add :: "int list \<Rightarrow> int \<Rightarrow> int list" where
  "set_add xs x = (if x \<in> set xs then xs else xs @ [x])"

definition set_size :: "int list \<Rightarrow> int" where
  "set_size xs = int (length xs)"

definition createJewelleryCard :: "jewellery_item \<Rightarrow> card" where
  "createJewelleryCard jewellery =
     \<lparr> card_item_id = to_string (item_property jewellery ''id''),
       img_data_src = to_string (item_property jewellery ''imageSrc''),
       img_alt = to_string (item_property jewellery ''name''),
       whatsapp_btn =
         \<lparr> data_item_id = Some (to_string (item_property jewellery ''id'')),
           data_item_name = Some (to_string (item_property jewellery ''name'')),
           data_image_src = Some (to_string (item_property jewellery ''imageSrc'')),
           data_netlify_src = Some (to_string (item_property jewellery ''netlifyImageUrl'')) \<rparr> \<rparr>"

text \<open>
  The loop of \<^verbatim>\<open>loadItemsBatch\<close>, over the pending fragment and the set of loaded
  identifiers.
\<close>

fun batch_loop :: "config \<Rightarrow> int list \<Rightarrow> card list \<times> int list \<Rightarrow> card list \<times> int list" where
  "batch_loop cfg [] (fragment, loaded) = (fragment, loaded)"
| "batch_loop cfg (itemId # rest) (fragment, loaded) =
     (if set_has loaded itemId then batch_loop cfg rest (fragment, loaded)
      else
        let jewellery = JewelleryItem cfg itemId;
            card = createJewelleryCard jewellery
        in batch_loop cfg rest (fragment @ [card], set_add loaded itemId))"

text \<open>
  A method returns the exception it threw, if any, and the manager as it left it:
  \<^verbatim>\<open>this.grid.appendChild\<close> on a missing grid throws after the loop has already
  added to the set.
\<close>

definition loadItemsBatch :: "config \<Rightarrow> int list \<Rightarrow> manager \<Rightarrow> error option \<times> manager" where
  "loadItemsBatch cfg itemIds this =
     (let (fragment, loaded) = batch_loop cfg itemIds ([], loadedItems this);
          this1 = this\<lparr>loadedItems := loaded\<rparr>
      in (case grid this1 of
            None \<Rightarrow> (Some TypeError, this1)
          | Some children \<Rightarrow> (None, this1\<lparr>grid := Some (children @ fragment)\<rparr>)))"

definition showLoading :: "bool \<Rightarrow> manager \<Rightarrow> manager" where
  "showLoading show this =
     (case loadingIndicator this of
        None \<Rightarrow> this
      | Some _ \<Rightarrow> this\<lparr>loadingIndicator := Some (\<not> show)\<rparr>)"

definition updateViewMoreButton :: "config \<Rightarrow> manager \<Rightarrow> manager" where
  "updateViewMoreButton cfg this =
     (case viewMoreContainer this of
        None \<Rightarrow> this
      | Some _ \<Rightarrow>
          let hasMoreItems = (set_size (loadedItems this) < TOTAL_IMAGES cfg)
          in this\<lparr>viewMoreContainer := Some (\<not> hasMoreItems)\<rparr>)"

definition loadInitialItems :: "config \<Rightarrow> manager \<Rightarrow> error option \<times> manager" where
  "loadInitialItems cfg this =
     (let this1 = showLoading True this;
          endIndex = min (INITIAL_LOAD cfg) (TOTAL_IMAGES cfg);
          items = array_from endIndex (\<lambda>i. i + 1)
      in (case loadItemsBatch cfg items this1 of
            (Some e, this2) \<Rightarrow> (Some e, this2)
          | (None, this2) \<Rightarrow> (None, updateViewMoreButton cfg (showLoading False this2))))"

definition loadMoreItems :: "config \<Rightarrow> manager \<Rightarrow> error option \<times> manager" where
  "loadMoreItems cfg this =
     (case viewMoreBtn this of
        None \<Rightarrow> (Some TypeError, this)
      | Some b \<Rightarrow>
          if disabled b then (None, this)
          else
            let this1 = this\<lparr>viewMoreBtn :=
                          Some (b\<lparr>disabled := True, textContent := ''Loading...''\<rparr>)\<rparr>;
                startIndex = set_size (loadedItems this1) + 1;
                endIndex = min (set_size (loadedItems this1) + BATCH_SIZE cfg)
                               (TOTAL_IMAGES cfg);
                newItems = array_from (endIndex - startIndex + 1) (\<lambda>i. startIndex + i)
            in (case loadItemsBatch cfg newItems this1 of
                  (Some e, this2) \<Rightarrow> (Some e, this2)
                | (None, this2) \<Rightarrow>
                    (None,
                     updateViewMoreButton cfg
                       (this2\<lparr>viewMoreBtn :=
                          Some (b\<lparr>disabled := False,
                                  textContent := ''View More Jewellery''\<rparr>)\<rparr>))))"

text \<open>
  The manager as the constructor leaves it before \<^verbatim>\<open>init\<close> runs, from the four
  elements it looked up.
\<close>

definition new_manager ::
  "card list option \<Rightarrow> bool option \<Rightarrow> bool option \<Rightarrow> view_more_button option \<Rightarrow> manager" where
  "new_manager g li vc vb =
     \<lparr> grid = g, loadingIndicator = li, viewMoreContainer = vc, viewMoreBtn = vb,
       loadedItems = [], isInitializing = False \<rparr>"

text \<open>
  Sequences of the two loading operations. A caller that catches an exception goes
  on with the manager as the failed call left it.
\<close>

datatype grid_op = LoadInitial | LoadMore

fun apply_op :: "config \<Rightarrow> grid_op \<Rightarrow> manager \<Rightarrow> error option \<times> manager" where
  "apply_op cfg LoadInitial this = loadInitialItems cfg this"
| "apply_op cfg LoadMore this = loadMoreItems cfg this"

definition run_ops :: "config \<Rightarrow> grid_op list \<Rightarrow> manager \<Rightarrow> manager" where
  "run_ops cfg ops this = foldl (\<lambda>s opn. snd (apply_op cfg opn s)) this ops"

text \<open>
  The cards in the grid, and the number of those whose \<^verbatim>\<open>data-item-id\<close> is the
  identifier \<open>x\<close>.
\<close>

definition rendered_cards :: "manager \<Rightarrow> card list" where
  "rendered_cards this = (case grid this of None \<Rightarrow> [] | Some children \<Rightarrow> children)"

definition cards_for :: "int \<Rightarrow> manager \<Rightarrow> nat" where
  "cards_for x this =
     length (filter (\<lambda>c. card_item_id c = number_to_string x) (rendered_cards this))"

section \<open>The buy action\<close>

text \<open>
  The confirmation surface: the modal (whether it carries the class \<^verbatim>\<open>hidden\<close>),
  its title (the text content), its image, its link (the \<^verbatim>\<open>href\<close>), and the
  \<^verbatim>\<open>overflow\<close> style of the page body.
\<close>

record image_element =
  src :: string
  alt :: string

record confirmation =
  buyNowModal :: "bool option"
  modalItem :: "string option"
  modalImage :: "image_element option"
  modalWhatsappLink :: "string option"
  body_overflow :: string

definition handleWhatsAppClick :: "whatsapp_button \<Rightarrow> confirmation \<Rightarrow> confirmation" where
  "handleWhatsAppClick button doc =
     (let itemId = to_string (str_or_undefined (data_item_id button));
          itemName = data_item_name button;
          localImageSrc = to_string (str_or_undefined (data_image_src button));
          netlifyImageUrl =
            ''https://sister-sparkles.netlify.app/images/jewel-'' @ itemId @ ''.jpg''
      in if buyNowModal doc \<noteq> None \<and> modalItem doc \<noteq> None
            \<and> modalImage doc \<noteq> None \<and> modalWhatsappLink doc \<noteq> None
         then
           let displayName = js_or itemName (''Jewellery Item '' @ itemId);
               message =
                 ''Hi Sisters Sparkles! \<newline>\<newline>I'm interested in buying this jewellery from your exhibition:\<newline>\<newline> *''
                 @ displayName @ ''*\<newline> *Image:* '' @ netlifyImageUrl
                 @ ''\<newline> *Item #'' @ itemId
                 @ ''*\<newline>\<newline>Please share price and availability. Thank you!'';
               whatsappUrl = ''https://wa.me/917436053004?text='' @ encodeURIComponent message
           in doc\<lparr> modalItem := Some displayName,
                    modalImage := Some \<lparr> src = localImageSrc, alt = displayName \<rparr>,
                    modalWhatsappLink := Some whatsappUrl,
                    buyNowModal := Some False,
                    body_overflow := ''hidden'' \<rparr>
         else doc)"

text \<open>
  The message text of \<^verbatim>\<open>handleWhatsAppClick\<close> as a function of the display name and
  the identifier, for stating what the link carries.
\<close>

definition buy_message :: "string \<Rightarrow> string \<Rightarrow> string" where
  "buy_message displayName itemId =
     ''Hi Sisters Sparkles! \<newline>\<newline>I'm interested in buying this jewellery from your exhibition:\<newline>\<newline> *''
     @ displayName @ ''*\<newline> *Image:* ''
     @ (''https://sister-sparkles.netlify.app/images/jewel-'' @ itemId @ ''.jpg'')
     @ ''\<newline> *Item #'' @ itemId
     @ ''*\<newline>\<newline>Please share price and availability. Thank you!''"

text \<open>The card \<^verbatim>\<open>loadItemsBatch\<close> builds for an identifier.\<close>

definition make_card :: "config \<Rightarrow> int \<Rightarrow> card" where
  "make_card cfg x = createJewelleryCard (JewelleryItem cfg x)"

section \<open>Properties of the image resolver\<close>

lemma js_rem_nonneg:
  assumes "0 \<le> a" and "0 < b"
  shows "js_rem a b = Some (a mod b)"
  using assms by (simp add: js_rem_def sgn_if)

lemma getFallbackImage_pos:
  assumes "1 \<le> i" and "FALLBACK_IMAGES cfg \<noteq> []"
  shows "js_rem (i - 1) (int (length (FALLBACK_IMAGES cfg)))
           = Some ((i - 1) mod int (length (FALLBACK_IMAGES cfg)))"
    and "getFallbackImage cfg i =
           Some (FALLBACK_IMAGES cfg ! nat ((i - 1) mod int (length (FALLBACK_IMAGES cfg))))"
proof -
  let ?n = "int (length (FALLBACK_IMAGES cfg))"
  have n: "0 < ?n" using assms(2) by simp
  show r: "js_rem (i - 1) ?n = Some ((i - 1) mod ?n)"
    using assms(1) n by (intro js_rem_nonneg) simp_all
  have "0 \<le> (i - 1) mod ?n" and "(i - 1) mod ?n < ?n"
    using n by simp_all
  then show "getFallbackImage cfg i = Some (FALLBACK_IMAGES cfg ! nat ((i - 1) mod ?n))"
    by (simp add: getFallbackImage_def r array_get_def)
qed

lemma number_to_string_small: "number_to_string 5 = ''5''" "number_to_string 37 = ''37''"
  by (simp_all add: number_to_string_def decimal_digits.simps digit_char_def)

text \<open>
  Claim C4. For a positive identifier that is a safe integer, \<^verbatim>\<open>getImageSrc\<close> returns the local path made of
  the base directory, the filename prefix, the identifier and the extension
  \<^verbatim>\<open>.jpg\<close> when the identifier is at most the total, and the fallback entry at
  position \<open>(id - 1) mod\<close> the length of the fallback list otherwise. With five
  fallback entries the identifiers 1 and 6 get the same entry, the first one.
\<close>

theorem getImageSrc_resolves:
  assumes "0 < i" and "safe_integer i"
  shows "(i \<le> TOTAL_IMAGES cfg \<longrightarrow>
            getImageSrc cfg i =
              Some (BASE_PATH cfg @ IMAGE_PREFIX cfg @ number_to_string i @ ''.jpg''))
       \<and> (TOTAL_IMAGES cfg < i \<longrightarrow> getImageSrc cfg i = getFallbackImage cfg i)
       \<and> (FALLBACK_IMAGES cfg \<noteq> [] \<longrightarrow>
            getFallbackImage cfg i =
              Some (FALLBACK_IMAGES cfg ! nat ((i - 1) mod int (length (FALLBACK_IMAGES cfg)))))
       \<and> (length (FALLBACK_IMAGES cfg) = 5 \<longrightarrow>
            getFallbackImage cfg 1 = Some (FALLBACK_IMAGES cfg ! 0)
          \<and> getFallbackImage cfg 6 = getFallbackImage cfg 1)"
proof -
  have a: "i \<le> TOTAL_IMAGES cfg \<longrightarrow>
            getImageSrc cfg i =
              Some (BASE_PATH cfg @ IMAGE_PREFIX cfg @ number_to_string i @ ''.jpg'')"
    by (simp add: getImageSrc_def)
  have b: "TOTAL_IMAGES cfg < i \<longrightarrow> getImageSrc cfg i = getFallbackImage cfg i"
    by (simp add: getImageSrc_def)
  have c: "FALLBACK_IMAGES cfg \<noteq> [] \<longrightarrow>
            getFallbackImage cfg i =
              Some (FALLBACK_IMAGES cfg ! nat ((i - 1) mod int (length (FALLBACK_IMAGES cfg))))"
    using assms(1) getFallbackImage_pos(2) [of i cfg] by simp
  have d: "length (FALLBACK_IMAGES cfg) = 5 \<longrightarrow>
            getFallbackImage cfg 1 = Some (FALLBACK_IMAGES cfg ! 0)
          \<and> getFallbackImage cfg 6 = getFallbackImage cfg 1"
  proof
    assume l: "length (FALLBACK_IMAGES cfg) = 5"
    then have ne: "FALLBACK_IMAGES cfg \<noteq> []" by auto
    show "getFallbackImage cfg 1 = Some (FALLBACK_IMAGES cfg ! 0)
          \<and> getFallbackImage cfg 6 = getFallbackImage cfg 1"
      using getFallbackImage_pos(2) [of 1 cfg] getFallbackImage_pos(2) [of 6 cfg] ne l
      by simp
  qed
  from a b c d show ?thesis by blast
qed

theorem getImageSrc_resolves_witness:
  "safe_integer 5 \<and> safe_integer 37
   \<and> getImageSrc JEWELLERY_CONFIG 5 = Some ''images/jewel-5.jpg''
   \<and> getImageSrc JEWELLERY_CONFIG 37 =
       Some ''https://images.unsplash.com/photo-1594576722512-582d5577dc56?ixlib=rb-4.0.3&auto=format&fit=crop&w=600&q=80''
   \<and> getFallbackImage JEWELLERY_CONFIG 6 = getFallbackImage JEWELLERY_CONFIG 1"
  using getImageSrc_resolves [of 5 JEWELLERY_CONFIG] getImageSrc_resolves [of 37 JEWELLERY_CONFIG]
  by (simp add: JEWELLERY_CONFIG_def number_to_string_small safe_integer_def
      MAX_SAFE_INTEGER_def)

text \<open>
  Claim C10. For an identifier of at least 1 the index \<^verbatim>\<open>(index - 1) % length\<close> that
  \<^verbatim>\<open>getFallbackImage\<close> computes lies between 0 and the length less one, and the
  result is an element of the fallback list. For the identifier 0 the index is
  \<open>-1\<close> and the lookup gives \<^verbatim>\<open>undefined\<close>.
\<close>

theorem getFallbackImage_in_bounds:
  assumes "FALLBACK_IMAGES cfg \<noteq> []"
  shows "(1 \<le> i \<longrightarrow>
           (\<exists>k. js_rem (i - 1) (int (length (FALLBACK_IMAGES cfg))) = Some k
               \<and> 0 \<le> k \<and> k < int (length (FALLBACK_IMAGES cfg))
               \<and> getFallbackImage cfg i = Some (FALLBACK_IMAGES cfg ! nat k))
           \<and> (\<exists>u. getFallbackImage cfg i = Some u \<and> u \<in> set (FALLBACK_IMAGES cfg)))
       \<and> (2 \<le> length (FALLBACK_IMAGES cfg) \<longrightarrow>
            js_rem (0 - 1) (int (length (FALLBACK_IMAGES cfg))) = Some (- 1)
          \<and> getFallbackImage cfg 0 = None)"
proof -
  let ?F = "FALLBACK_IMAGES cfg"
  let ?n = "int (length ?F)"
  have n: "0 < ?n" using assms by simp
  have first: "(\<exists>k. js_rem (i - 1) ?n = Some k \<and> 0 \<le> k \<and> k < ?n
                  \<and> getFallbackImage cfg i = Some (?F ! nat k))
             \<and> (\<exists>u. getFallbackImage cfg i = Some u \<and> u \<in> set ?F)" if i: "1 \<le> i"
  proof -
    let ?k = "(i - 1) mod ?n"
    have k: "0 \<le> ?k" "?k < ?n" using n by simp_all
    have "nat ?k < length ?F" using k by linarith
    then have mem: "?F ! nat ?k \<in> set ?F" by (rule nth_mem)
    show ?thesis
      using getFallbackImage_pos [OF i assms] k mem by blast
  qed
  have second: "js_rem (0 - 1) ?n = Some (- 1) \<and> getFallbackImage cfg 0 = None"
    if l: "2 \<le> length ?F"
  proof -
    have "(1::int) mod ?n = 1" using l by simp
    then have r: "js_rem (0 - 1) ?n = Some (- 1)"
      using n by (simp add: js_rem_def)
    then show ?thesis by (simp add: getFallbackImage_def array_get_def)
  qed
  from first second show ?thesis by blast
qed

theorem getFallbackImage_in_bounds_witness:
  "FALLBACK_IMAGES JEWELLERY_CONFIG \<noteq> []
   \<and> getFallbackImage JEWELLERY_CONFIG 7 =
       Some ''https://images.unsplash.com/photo-1594576722512-582d5577dc56?ixlib=rb-4.0.3&auto=format&fit=crop&w=600&q=80''
   \<and> js_rem (7 - 1) (int (length (FALLBACK_IMAGES JEWELLERY_CONFIG))) = Some 1
   \<and> js_rem (0 - 1) (int (length (FALLBACK_IMAGES JEWELLERY_CONFIG))) = Some (- 1)
   \<and> getFallbackImage JEWELLERY_CONFIG 0 = None"
  using getFallbackImage_in_bounds [of JEWELLERY_CONFIG 7]
  by (simp add: JEWELLERY_CONFIG_def js_rem_def)

section \<open>Properties of the item model\<close>

lemma JEWELLERY_NAMES_length: "length JEWELLERY_NAMES = 36"
  by (simp add: JEWELLERY_NAMES_def)

lemma JEWELLERY_NAMES_set: "set JEWELLERY_NAMES = {''Jewellery''}"
  by (simp add: JEWELLERY_NAMES_def)

lemma JEWELLERY_NAMES_nth:
  assumes "k < 36"
  shows "JEWELLERY_NAMES ! k = ''Jewellery''"
proof -
  have "JEWELLERY_NAMES ! k \<in> set JEWELLERY_NAMES"
    using assms by (intro nth_mem) (simp add: JEWELLERY_NAMES_length)
  then show ?thesis by (simp add: JEWELLERY_NAMES_set)
qed

lemma getName_in_table:
  assumes "1 \<le> i" and "i \<le> 36"
  shows "getName i = JEWELLERY_NAMES ! nat (i - 1)"
proof -
  have k: "nat (i - 1) < 36" using assms by linarith
  have "array_get JEWELLERY_NAMES (Some (i - 1)) = Some (JEWELLERY_NAMES ! nat (i - 1))"
    using assms by (simp add: array_get_def JEWELLERY_NAMES_length)
  then show ?thesis
    by (simp add: getName_def js_or_def JEWELLERY_NAMES_nth [OF k])
qed

lemma getName_past_table:
  assumes "i < 1 \<or> 36 < i"
  shows "getName i = ''Jewellery Item '' @ number_to_string i"
proof -
  have "array_get JEWELLERY_NAMES (Some (i - 1)) = None"
    using assms by (auto simp add: array_get_def JEWELLERY_NAMES_length)
  then show ?thesis by (simp add: getName_def js_or_def)
qed

text \<open>
  Claim C7, as stated, fails: for the identifier 37 the table has no entry, and the
  name is \<^verbatim>\<open>Jewellery Item 37\<close>, not \<^verbatim>\<open>Item 37\<close>.
\<close>

theorem getName_generated_label_counterexample:
  "array_get JEWELLERY_NAMES (Some (37 - 1)) = None
   \<and> getName 37 \<noteq> ''Item 37''
   \<and> getName 37 = ''Jewellery Item 37''"
  using getName_past_table [of 37]
  by (simp add: array_get_def JEWELLERY_NAMES_length number_to_string_small)

text \<open>
  Claim C7, amended. For a positive identifier that is a safe integer the name is the entry of the table at
  index \<open>id - 1\<close> when the identifier is at most the length of the table, and the
  generated label \<^verbatim>\<open>Jewellery Item <id>\<close> otherwise.
\<close>

theorem getName_table_or_label:
  assumes "0 < i" and "safe_integer i"
  shows "getName i =
           (if i \<le> int (length JEWELLERY_NAMES) then JEWELLERY_NAMES ! nat (i - 1)
            else ''Jewellery Item '' @ number_to_string i)"
  using assms(1) getName_in_table [of i] getName_past_table [of i]
  by (simp add: JEWELLERY_NAMES_length)

theorem getName_table_or_label_witness:
  "safe_integer 5 \<and> safe_integer 36 \<and> safe_integer 37
   \<and> getName 5 = ''Jewellery'' \<and> getName 36 = ''Jewellery''
   \<and> getName 37 = ''Jewellery Item 37''"
  using getName_table_or_label [of 5] getName_table_or_label [of 36]
    getName_table_or_label [of 37]
  by (simp add: JEWELLERY_NAMES_length JEWELLERY_NAMES_nth number_to_string_small
      safe_integer_def MAX_SAFE_INTEGER_def)

lemma createJewelleryCard_netlify:
  "data_netlify_src (whatsapp_btn (createJewelleryCard j)) = Some ''undefined''"
  by (simp add: createJewelleryCard_def item_property_def)

lemma batch_loop_netlify:
  assumes "list_all (\<lambda>c. data_netlify_src (whatsapp_btn c) = Some ''undefined'') fragment"
  shows "list_all (\<lambda>c. data_netlify_src (whatsapp_btn c) = Some ''undefined'')
           (fst (batch_loop cfg ids (fragment, loaded)))"
  using assms
  by (induction ids arbitrary: fragment loaded) (simp_all add: createJewelleryCard_netlify)

section \<open>Properties of percent-encoding\<close>

lemma nibble_cases:
  assumes "d < (16::nat)"
  shows "d = 0 \<or> d = 1 \<or> d = 2 \<or> d = 3 \<or> d = 4 \<or> d = 5 \<or> d = 6 \<or> d = 7
       \<or> d = 8 \<or> d = 9 \<or> d = 10 \<or> d = 11 \<or> d = 12 \<or> d = 13 \<or> d = 14 \<or> d = 15"
  using assms by arith

lemma hex_value_hex_digit:
  assumes "d < 16"
  shows "hex_value (hex_digit d) = Some d"
  using nibble_cases [OF assms]
  by (auto simp add: hex_value_def hex_digit_def)

lemma uriUnescaped_hex_digit:
  assumes "d < 16"
  shows "uriUnescaped (hex_digit d)"
  using nibble_cases [OF assms]
  by (auto simp add: uriUnescaped_def hex_digit_def)

lemma of_char_less_256: "(of_char c :: nat) < 256"
  by (cases c) (simp add: of_char_Char bit_simps horner_sum_eq_sum)

lemma percent_decode_percent_byte:
  "percent_decode (percent_byte c @ rest) = map_option (\<lambda>r. c # r) (percent_decode rest)"
proof -
  let ?n = "of_char c :: nat"
  have hi: "?n div 16 < 16" using of_char_less_256 [of c] by arith
  have lo: "?n mod 16 < 16" by simp
  have "char_of (16 * (?n div 16) + ?n mod 16) = c" by simp
  then show ?thesis
    by (simp add: percent_byte_def hex_value_hex_digit [OF hi] hex_value_hex_digit [OF lo])
qed

lemma uriUnescaped_not_percent: "uriUnescaped c \<Longrightarrow> c \<noteq> CHR ''%''"
  by (auto simp add: uriUnescaped_def)

lemma percent_decode_encodeURIComponent: "percent_decode (encodeURIComponent s) = Some s"
proof (induction s)
  case Nil
  show ?case by (simp add: encodeURIComponent_def)
next
  case (Cons c s)
  have step: "encodeURIComponent (c # s)
                = (if uriUnescaped c then [c] else percent_byte c) @ encodeURIComponent s"
    by (simp add: encodeURIComponent_def)
  show ?case
  proof (cases "uriUnescaped c")
    case True
    then show ?thesis
      using Cons.IH uriUnescaped_not_percent [OF True] by (simp add: step)
  next
    case False
    then show ?thesis
      using Cons.IH by (simp add: step percent_decode_percent_byte del: percent_decode.simps)
  qed
qed

lemma encodeURIComponent_url_safe:
  "list_all (\<lambda>c. uriUnescaped c \<or> c = CHR ''%'') (encodeURIComponent s)"
proof (induction s)
  case Nil
  show ?case by (simp add: encodeURIComponent_def)
next
  case (Cons c s)
  have hi: "(of_char c :: nat) div 16 < 16" using of_char_less_256 [of c] by arith
  have "list_all (\<lambda>c. uriUnescaped c \<or> c = CHR ''%'') (percent_byte c)"
    by (simp add: percent_byte_def uriUnescaped_hex_digit [OF hi] uriUnescaped_hex_digit)
  then show ?case
    using Cons.IH by (simp add: encodeURIComponent_def)
qed

lemma encodeURIComponent_append:
  "encodeURIComponent (s @ t) = encodeURIComponent s @ encodeURIComponent t"
  by (simp add: encodeURIComponent_def)

lemma starts_with_append: "starts_with (t @ ss) t"
  by (induction t) simp_all

lemma str_includes_here: "str_includes (t @ ss) t"
proof (cases "t @ ss")
  case Nil
  then show ?thesis by simp
next
  case (Cons x xs)
  have "starts_with (t @ ss) t" by (rule starts_with_append)
  then have "starts_with (x # xs) t" by (simp only: Cons)
  then have "str_includes (x # xs) t" by simp
  then show ?thesis by (simp only: Cons)
qed

lemma str_includes_append: "str_includes (ps @ t @ ss) t"
  by (induction ps) (simp_all add: str_includes_here)

lemma starts_with_iff: "starts_with s t \<longleftrightarrow> (\<exists>ss. s = t @ ss)"
  by (induction s t rule: starts_with.induct) auto

lemma str_includes_iff: "str_includes s t \<longleftrightarrow> (\<exists>ps ss. s = ps @ t @ ss)"
proof (induction s)
  case Nil
  show ?case by auto
next
  case (Cons x xs)
  show ?case
  proof
    assume "str_includes (x # xs) t"
    then consider "starts_with (x # xs) t" | "str_includes xs t" by auto
    then show "\<exists>ps ss. x # xs = ps @ t @ ss"
    proof cases
      case 1
      then obtain ss where "x # xs = t @ ss" by (auto simp add: starts_with_iff)
      then have "x # xs = [] @ t @ ss" by simp
      then show ?thesis by blast
    next
      case 2
      then obtain ps ss where "xs = ps @ t @ ss" using Cons.IH by blast
      then have "x # xs = (x # ps) @ t @ ss" by simp
      then show ?thesis by blast
    qed
  next
    assume "\<exists>ps ss. x # xs = ps @ t @ ss"
    then obtain ps ss where e: "x # xs = ps @ t @ ss" by blast
    show "str_includes (x # xs) t"
      unfolding e by (rule str_includes_append)
  qed
qed

lemma item_name_37: "item_name (JewelleryItem cfg 37) = ''Jewellery Item 37''"
  using getName_past_table [of 37]
  by (simp add: JewelleryItem_def number_to_string_small)

lemma encode_eval:
  "encodeURIComponent [] = []"
  "encodeURIComponent (c # s) = (if uriUnescaped c then [c] else percent_byte c) @ encodeURIComponent s"
  by (simp_all add: encodeURIComponent_def)

lemma getWhatsAppMessage_37:
  "getWhatsAppMessage (JewelleryItem cfg 37) =
     ''Hi%20Sisters%20Sparkles%2C%20I'm%20interested%20in%20buying%20Jewellery%20Item%2037.%20Please%20share%20details%20and%20price.''"
  by (simp add: getWhatsAppMessage_def item_name_37 encode_eval uriUnescaped_def
      percent_byte_def hex_digit_def)

text \<open>
  Claim C8, as stated, fails: for the item 37, whose name is \<^verbatim>\<open>Jewellery Item 37\<close>,
  the result of \<^verbatim>\<open>getWhatsAppMessage\<close> is not the plain sentence and does not
  contain the name: it is already percent-encoded.
\<close>

theorem getWhatsAppMessage_raw_counterexample:
  "getWhatsAppMessage (JewelleryItem JEWELLERY_CONFIG 37) \<noteq>
     ''Hi Sisters Sparkles, I'm interested in buying Jewellery Item 37. Please share details and price.''
   \<and> \<not> str_includes (getWhatsAppMessage (JewelleryItem JEWELLERY_CONFIG 37))
                      (item_name (JewelleryItem JEWELLERY_CONFIG 37))"
  by (simp add: getWhatsAppMessage_37 item_name_37)

text \<open>
  Claim C8, amended. For every item \<^verbatim>\<open>getWhatsAppMessage\<close> returns the
  percent-encoded form of the sentence built around the item's name: it holds only
  unreserved characters and \<^verbatim>\<open>%\<close>, and percent-decoding it gives the sentence, which
  contains the name.
\<close>

theorem getWhatsAppMessage_percent_encoded:
  "getWhatsAppMessage j =
     encodeURIComponent
       (''Hi Sisters Sparkles, I'm interested in buying '' @ item_name j
        @ ''. Please share details and price.'')
   \<and> list_all (\<lambda>c. uriUnescaped c \<or> c = CHR ''%'') (getWhatsAppMessage j)
   \<and> percent_decode (getWhatsAppMessage j) =
       Some (''Hi Sisters Sparkles, I'm interested in buying '' @ item_name j
             @ ''. Please share details and price.'')
   \<and> str_includes
        (''Hi Sisters Sparkles, I'm interested in buying '' @ item_name j
         @ ''. Please share details and price.'')
        (item_name j)"
proof -
  let ?m = "''Hi Sisters Sparkles, I'm interested in buying '' @ item_name j
            @ ''. Please share details and price.''"
  have e: "getWhatsAppMessage j = encodeURIComponent ?m"
    by (simp add: getWhatsAppMessage_def)
  have "list_all (\<lambda>c. uriUnescaped c \<or> c = CHR ''%'') (encodeURIComponent ?m)"
    by (rule encodeURIComponent_url_safe)
  moreover have "percent_decode (encodeURIComponent ?m) = Some ?m"
    by (rule percent_decode_encodeURIComponent)
  moreover have "str_includes ?m (item_name j)"
    by (rule str_includes_append)
  ultimately show ?thesis
    unfolding e by blast
qed

section \<open>Properties of the buy action\<close>

lemma handleWhatsAppClick_href:
  assumes "buyNowModal doc \<noteq> None" and "modalItem doc \<noteq> None"
    and "modalImage doc \<noteq> None" and "modalWhatsappLink doc \<noteq> None"
  shows "modalWhatsappLink (handleWhatsAppClick button doc) =
           Some (''https://wa.me/917436053004?text='' @
                 encodeURIComponent
                   (buy_message
                      (js_or (data_item_name button)
                         (''Jewellery Item '' @ to_string (str_or_undefined (data_item_id button))))
                      (to_string (str_or_undefined (data_item_id button)))))"
  using assms by (simp add: handleWhatsAppClick_def buy_message_def Let_def)

lemma buy_message_includes:
  "str_includes (buy_message n i) (''Item #'' @ i)"
  "str_includes (buy_message n i) (''https://sister-sparkles.netlify.app/images/jewel-'' @ i @ ''.jpg'')"
  "str_includes (buy_message n i) n"
proof -
  have "buy_message n i =
     (''Hi Sisters Sparkles! \<newline>\<newline>I'm interested in buying this jewellery from your exhibition:\<newline>\<newline> *''
     @ n @ ''*\<newline> *Image:* ''
     @ (''https://sister-sparkles.netlify.app/images/jewel-'' @ i @ ''.jpg'')
     @ ''\<newline> *'') @ (''Item #'' @ i)
     @ ''*\<newline>\<newline>Please share price and availability. Thank you!''"
    by (simp add: buy_message_def)
  then show "str_includes (buy_message n i) (''Item #'' @ i)"
    by (simp only: str_includes_append)
  have "buy_message n i =
     (''Hi Sisters Sparkles! \<newline>\<newline>I'm interested in buying this jewellery from your exhibition:\<newline>\<newline> *''
     @ n @ ''*\<newline> *Image:* '')
     @ (''https://sister-sparkles.netlify.app/images/jewel-'' @ i @ ''.jpg'')
     @ (''\<newline> *Item #'' @ i
     @ ''*\<newline>\<newline>Please share price and availability. Thank you!'')"
    by (simp add: buy_message_def)
  then show "str_includes (buy_message n i) (''https://sister-sparkles.netlify.app/images/jewel-'' @ i @ ''.jpg'')"
    by (simp only: str_includes_append)
  have "buy_message n i =
     ''Hi Sisters Sparkles! \<newline>\<newline>I'm interested in buying this jewellery from your exhibition:\<newline>\<newline> *''
     @ n @ (''*\<newline> *Image:* ''
     @ (''https://sister-sparkles.netlify.app/images/jewel-'' @ i @ ''.jpg'')
     @ ''\<newline> *Item #'' @ i
     @ ''*\<newline>\<newline>Please share price and availability. Thank you!'')"
    by (simp add: buy_message_def)
  then show "str_includes (buy_message n i) n"
    by (simp only: str_includes_append)
qed

text \<open>
  Claim C6. With the four elements of the confirmation surface present, the buy action
  on a button with identifier \<open>i\<close> and a non-empty name \<open>n\<close> sets the link to
  \<^verbatim>\<open>https://wa.me/917436053004?text=\<close> followed by a percent-encoded text whose
  decoding contains \<^verbatim>\<open>Item #\<close> followed by \<open>i\<close>, the address
  \<^verbatim>\<open>https://sister-sparkles.netlify.app/images/jewel-\<close>\<open>i\<close>\<^verbatim>\<open>.jpg\<close> and the name. An
  instance is the button of the card of item 5, named \<^verbatim>\<open>Jewellery\<close>.
\<close>

theorem handleWhatsAppClick_link:
  assumes "buyNowModal doc \<noteq> None" and "modalItem doc \<noteq> None"
    and "modalImage doc \<noteq> None" and "modalWhatsappLink doc \<noteq> None"
    and "data_item_id button = Some i" and "data_item_name button = Some n" and "n \<noteq> []"
  shows "\<exists>t m. modalWhatsappLink (handleWhatsAppClick button doc) =
                  Some (''https://wa.me/917436053004?text='' @ t)
             \<and> list_all (\<lambda>c. uriUnescaped c \<or> c = CHR ''%'') t
             \<and> percent_decode t = Some m
             \<and> str_includes m (''Item #'' @ i)
             \<and> str_includes m
                  (''https://sister-sparkles.netlify.app/images/jewel-'' @ i @ ''.jpg'')
             \<and> str_includes m n"
proof -
  let ?m = "buy_message n i"
  let ?t = "encodeURIComponent ?m"
  have n: "js_or (data_item_name button) (''Jewellery Item '' @ i) = n"
    using assms(6,7) by (simp add: js_or_def)
  have i: "to_string (str_or_undefined (data_item_id button)) = i"
    using assms(5) by (simp add: str_or_undefined_def)
  have "modalWhatsappLink (handleWhatsAppClick button doc) =
          Some (''https://wa.me/917436053004?text='' @ ?t)"
    using handleWhatsAppClick_href [OF assms(1-4), of button] by (simp only: i n)
  moreover have "list_all (\<lambda>c. uriUnescaped c \<or> c = CHR ''%'') ?t"
    by (rule encodeURIComponent_url_safe)
  moreover have "percent_decode ?t = Some ?m"
    by (rule percent_decode_encodeURIComponent)
  ultimately show ?thesis
    using buy_message_includes [of n i] by blast
qed

lemma card_button_5:
  "whatsapp_btn (createJewelleryCard (JewelleryItem JEWELLERY_CONFIG 5)) =
     \<lparr> data_item_id = Some ''5'', data_item_name = Some ''Jewellery'',
       data_image_src = Some ''images/jewel-5.jpg'',
       data_netlify_src = Some ''undefined'' \<rparr>"
  using getName_in_table [of 5]
  by (simp add: createJewelleryCard_def JewelleryItem_def item_property_def getImageSrc_def
      JEWELLERY_CONFIG_def number_to_string_small str_or_undefined_def JEWELLERY_NAMES_nth)

theorem handleWhatsAppClick_link_witness:
  "\<exists>t m. modalWhatsappLink
            (handleWhatsAppClick
               (whatsapp_btn (createJewelleryCard (JewelleryItem JEWELLERY_CONFIG 5)))
               \<lparr> buyNowModal = Some True, modalItem = Some [],
                 modalImage = Some \<lparr> src = [], alt = [] \<rparr>,
                 modalWhatsappLink = Some ''#'', body_overflow = [] \<rparr>) =
            Some (''https://wa.me/917436053004?text='' @ t)
       \<and> list_all (\<lambda>c. uriUnescaped c \<or> c = CHR ''%'') t
       \<and> percent_decode t = Some m
       \<and> str_includes m ''Item #5''
       \<and> str_includes m ''https://sister-sparkles.netlify.app/images/jewel-5.jpg''
       \<and> str_includes m ''Jewellery''"
  using handleWhatsAppClick_link
    [of "\<lparr> buyNowModal = Some True, modalItem = Some [],
           modalImage = Some \<lparr> src = [], alt = [] \<rparr>,
           modalWhatsappLink = Some ''#'', body_overflow = [] \<rparr>"
        "whatsapp_btn (createJewelleryCard (JewelleryItem JEWELLERY_CONFIG 5))"
        "''5''" "''Jewellery''"]
  by (simp add: card_button_5)

section \<open>Properties of the grid manager\<close>

lemma array_from_range: "array_from n (\<lambda>i. s + i) = [s..s + n - 1]"
proof (cases "n \<le> 0")
  case True
  then show ?thesis by (simp add: array_from_def)
next
  case False
  define k where "k = nat n"
  have n: "n = int k" using False by (simp add: k_def)
  have "map (\<lambda>i. s + i) [0..int k - 1] = [s..s + int k - 1]"
  proof (induction k)
    case 0
    show ?case by simp
  next
    case (Suc k)
    have a: "[0..int (Suc k) - 1] = [0..int k - 1] @ [int k]"
      using upto_rec2 [of 0 "int k"] by simp
    have b: "[s..s + int (Suc k) - 1] = [s..s + int k - 1] @ [s + int k]"
      using upto_rec2 [of s "s + int k"] by simp
    show ?case by (simp only: a b map_append Suc.IH) simp
  qed
  then show ?thesis by (simp add: array_from_def n)
qed

lemma array_from_succ: "array_from n (\<lambda>i. i + 1) = [1..n]"
  using array_from_range [of n 1] by (simp add: add.commute)

lemma batch_loop_distinct_ids:
  assumes "distinct ids"
  shows "batch_loop cfg ids (fragment, loaded) =
           (fragment @ map (make_card cfg) (filter (\<lambda>x. x \<notin> set loaded) ids),
            loaded @ filter (\<lambda>x. x \<notin> set loaded) ids)"
  using assms
proof (induction ids arbitrary: fragment loaded)
  case Nil
  show ?case by simp
next
  case (Cons x xs)
  have d: "distinct xs" and nx: "x \<notin> set xs" using Cons.prems by simp_all
  show ?case
  proof (cases "x \<in> set loaded")
    case True
    then show ?thesis using Cons.IH [OF d] by (simp add: set_has_def)
  next
    case False
    have f: "filter (\<lambda>y. y \<noteq> x \<and> y \<notin> set loaded) xs = filter (\<lambda>y. y \<notin> set loaded) xs"
      using nx by (intro filter_cong) auto
    show ?thesis
      using False Cons.IH [OF d, of "fragment @ [make_card cfg x]" "loaded @ [x]"]
      by (simp add: set_has_def set_add_def f make_card_def)
  qed
qed

lemma batch_loop_present:
  assumes "set ids \<subseteq> set loaded"
  shows "batch_loop cfg ids (fragment, loaded) = (fragment, loaded)"
  using assms by (induction ids) (simp_all add: set_has_def)

lemma loadItemsBatch_unfold:
  "loadItemsBatch cfg ids this =
     (case grid this of
        None \<Rightarrow>
          (Some TypeError,
           this\<lparr>loadedItems := snd (batch_loop cfg ids ([], loadedItems this))\<rparr>)
      | Some children \<Rightarrow>
          (None,
           this\<lparr>loadedItems := snd (batch_loop cfg ids ([], loadedItems this)),
                  grid := Some (children @ fst (batch_loop cfg ids ([], loadedItems this)))\<rparr>))"
  by (simp add: loadItemsBatch_def Let_def split: prod.split option.split)

lemma loadItemsBatch_loaded:
  assumes "distinct ids"
  shows "loadedItems (snd (loadItemsBatch cfg ids this)) =
           loadedItems this @ filter (\<lambda>x. x \<notin> set (loadedItems this)) ids"
  by (simp add: loadItemsBatch_unfold batch_loop_distinct_ids [OF assms] split: option.split)

lemma loadItemsBatch_cards:
  assumes "distinct ids"
  shows "rendered_cards (snd (loadItemsBatch cfg ids this)) =
           (case grid this of
              None \<Rightarrow> []
            | Some children \<Rightarrow>
                children @ map (make_card cfg) (filter (\<lambda>x. x \<notin> set (loadedItems this)) ids))"
  by (simp add: loadItemsBatch_unfold batch_loop_distinct_ids [OF assms] rendered_cards_def
      split: option.split)

lemma loadItemsBatch_error:
  "fst (loadItemsBatch cfg ids this) = (if grid this = None then Some TypeError else None)"
  by (simp add: loadItemsBatch_unfold split: option.split)

lemma loadItemsBatch_fields:
  "loadingIndicator (snd (loadItemsBatch cfg ids this)) = loadingIndicator this"
  "viewMoreContainer (snd (loadItemsBatch cfg ids this)) = viewMoreContainer this"
  "viewMoreBtn (snd (loadItemsBatch cfg ids this)) = viewMoreBtn this"
  "isInitializing (snd (loadItemsBatch cfg ids this)) = isInitializing this"
  by (simp_all add: loadItemsBatch_unfold split: option.split)

lemma loadItemsBatch_present:
  assumes "set ids \<subseteq> set (loadedItems this)"
  shows "snd (loadItemsBatch cfg ids this) = this"
  by (simp add: loadItemsBatch_unfold batch_loop_present [OF assms] split: option.split)

lemma showLoading_fields:
  "loadedItems (showLoading b this) = loadedItems this"
  "grid (showLoading b this) = grid this"
  "viewMoreContainer (showLoading b this) = viewMoreContainer this"
  "viewMoreBtn (showLoading b this) = viewMoreBtn this"
  by (simp_all add: showLoading_def split: option.split)

lemma updateViewMoreButton_fields:
  "loadedItems (updateViewMoreButton cfg this) = loadedItems this"
  "grid (updateViewMoreButton cfg this) = grid this"
  "viewMoreBtn (updateViewMoreButton cfg this) = viewMoreBtn this"
  by (simp_all add: updateViewMoreButton_def split: option.split)

lemma updateViewMoreButton_hidden:
  "viewMoreContainer (updateViewMoreButton cfg this) =
     (case viewMoreContainer this of
        None \<Rightarrow> None
      | Some _ \<Rightarrow> Some (TOTAL_IMAGES cfg \<le> set_size (loadedItems this)))"
  by (simp add: updateViewMoreButton_def not_less split: option.split)

lemma rendered_cards_fields:
  "rendered_cards (showLoading b this) = rendered_cards this"
  "rendered_cards (updateViewMoreButton cfg this) = rendered_cards this"
  "rendered_cards (this\<lparr>viewMoreBtn := vb\<rparr>) = rendered_cards this"
  by (simp_all add: rendered_cards_def showLoading_fields updateViewMoreButton_fields)

lemma loadInitialItems_unfold:
  "loadInitialItems cfg this =
     (if grid this = None
      then (Some TypeError,
            snd (loadItemsBatch cfg [1..min (INITIAL_LOAD cfg) (TOTAL_IMAGES cfg)]
                   (showLoading True this)))
      else (None,
            updateViewMoreButton cfg
              (showLoading False
                 (snd (loadItemsBatch cfg [1..min (INITIAL_LOAD cfg) (TOTAL_IMAGES cfg)]
                         (showLoading True this))))))"
proof -
  let ?r = "loadItemsBatch cfg [1..min (INITIAL_LOAD cfg) (TOTAL_IMAGES cfg)]
              (showLoading True this)"
  have e: "fst ?r = (if grid this = None then Some TypeError else None)"
    by (simp add: loadItemsBatch_error showLoading_fields)
  show ?thesis
    using e by (cases ?r) (auto simp add: loadInitialItems_def array_from_succ)
qed

lemma loadMoreItems_unfold:
  assumes "viewMoreBtn this = Some b" and "\<not> disabled b"
  shows "loadMoreItems cfg this =
     (let r = loadItemsBatch cfg
                [set_size (loadedItems this) + 1..
                 min (set_size (loadedItems this) + BATCH_SIZE cfg) (TOTAL_IMAGES cfg)]
                (this\<lparr>viewMoreBtn :=
                   Some (b\<lparr>disabled := True, textContent := ''Loading...''\<rparr>)\<rparr>)
      in if grid this = None then (Some TypeError, snd r)
         else (None,
               updateViewMoreButton cfg
                 ((snd r)\<lparr>viewMoreBtn :=
                    Some (b\<lparr>disabled := False,
                            textContent := ''View More Jewellery''\<rparr>)\<rparr>)))"
proof -
  let ?n = "set_size (loadedItems this)"
  let ?E = "min (?n + BATCH_SIZE cfg) (TOTAL_IMAGES cfg)"
  let ?this1 = "this\<lparr>viewMoreBtn :=
                   Some (b\<lparr>disabled := True, textContent := ''Loading...''\<rparr>)\<rparr>"
  let ?r = "loadItemsBatch cfg [?n + 1..?E] ?this1"
  have ids: "array_from (?E - (?n + 1) + 1) (\<lambda>i. ?n + 1 + i) = [?n + 1..?E]"
    by (simp add: array_from_range)
  have e: "fst ?r = (if grid this = None then Some TypeError else None)"
    by (simp add: loadItemsBatch_error)
  show ?thesis
    using e assms ids by (cases ?r) (auto simp add: loadMoreItems_def Let_def)
qed

lemma loadInitialItems_loaded:
  "loadedItems (snd (loadInitialItems cfg this)) =
     loadedItems this @
     filter (\<lambda>x. x \<notin> set (loadedItems this)) [1..min (INITIAL_LOAD cfg) (TOTAL_IMAGES cfg)]"
  by (simp add: loadInitialItems_unfold loadItemsBatch_loaded showLoading_fields
      updateViewMoreButton_fields)

lemma loadMoreItems_loaded:
  "loadedItems (snd (loadMoreItems cfg this)) =
     (case viewMoreBtn this of
        None \<Rightarrow> loadedItems this
      | Some b \<Rightarrow>
          if disabled b then loadedItems this
          else loadedItems this @
               filter (\<lambda>x. x \<notin> set (loadedItems this))
                 [set_size (loadedItems this) + 1..
                  min (set_size (loadedItems this) + BATCH_SIZE cfg) (TOTAL_IMAGES cfg)])"
proof (cases "viewMoreBtn this")
  case None
  then show ?thesis by (simp add: loadMoreItems_def)
next
  case (Some b)
  show ?thesis
  proof (cases "disabled b")
    case True
    then show ?thesis using Some by (simp add: loadMoreItems_def)
  next
    case False
    show ?thesis
      using Some False
      by (simp add: loadMoreItems_unfold [OF Some False] Let_def loadItemsBatch_loaded
          updateViewMoreButton_fields)
  qed
qed

lemma run_ops_snoc:
  "run_ops cfg (ops @ [opn]) this = snd (apply_op cfg opn (run_ops cfg ops this))"
  by (simp add: run_ops_def)

lemma apply_op_loaded:
  "\<exists>new. loadedItems (snd (apply_op cfg opn this)) = loadedItems this @ new
       \<and> distinct new \<and> set new \<inter> set (loadedItems this) = {}
       \<and> set new \<subseteq> {1..TOTAL_IMAGES cfg}"
proof (cases opn)
  case LoadInitial
  let ?new = "filter (\<lambda>x. x \<notin> set (loadedItems this))
                [1..min (INITIAL_LOAD cfg) (TOTAL_IMAGES cfg)]"
  have "loadedItems (snd (apply_op cfg opn this)) = loadedItems this @ ?new"
    by (simp add: LoadInitial loadInitialItems_loaded)
  moreover have "distinct ?new" by simp
  moreover have "set ?new \<inter> set (loadedItems this) = {}" by auto
  moreover have "set ?new \<subseteq> {1..TOTAL_IMAGES cfg}" by auto
  ultimately show ?thesis by blast
next
  case LoadMore
  let ?n = "set_size (loadedItems this)"
  let ?new = "case viewMoreBtn this of
                None \<Rightarrow> []
              | Some b \<Rightarrow>
                  if disabled b then []
                  else filter (\<lambda>x. x \<notin> set (loadedItems this))
                         [?n + 1..min (?n + BATCH_SIZE cfg) (TOTAL_IMAGES cfg)]"
  have n: "0 \<le> ?n" by (simp add: set_size_def)
  have "loadedItems (snd (apply_op cfg opn this)) = loadedItems this @ ?new"
    by (simp add: LoadMore loadMoreItems_loaded split: option.split)
  moreover have "distinct ?new" by (simp split: option.split)
  moreover have "set ?new \<inter> set (loadedItems this) = {}"
    by (auto split: option.split if_splits)
  moreover have "set ?new \<subseteq> {1..TOTAL_IMAGES cfg}"
    using n by (auto split: option.split if_splits)
  ultimately show ?thesis by blast
qed

lemma apply_op_invariant:
  assumes "distinct (loadedItems this)"
    and "set (loadedItems this) \<subseteq> {1..TOTAL_IMAGES cfg}"
  shows "distinct (loadedItems (snd (apply_op cfg opn this)))"
    and "set (loadedItems (snd (apply_op cfg opn this))) \<subseteq> {1..TOTAL_IMAGES cfg}"
proof -
  obtain new where new: "loadedItems (snd (apply_op cfg opn this)) = loadedItems this @ new"
    "distinct new" "set new \<inter> set (loadedItems this) = {}"
    "set new \<subseteq> {1..TOTAL_IMAGES cfg}"
    using apply_op_loaded [of cfg opn this] by blast
  show "distinct (loadedItems (snd (apply_op cfg opn this)))"
    using assms(1) new(2,3) by (auto simp add: new(1))
  show "set (loadedItems (snd (apply_op cfg opn this))) \<subseteq> {1..TOTAL_IMAGES cfg}"
    using assms(2) new(4) by (simp add: new(1))
qed

lemma run_ops_invariant:
  assumes "distinct (loadedItems this)"
    and "set (loadedItems this) \<subseteq> {1..TOTAL_IMAGES cfg}"
  shows "distinct (loadedItems (run_ops cfg ops this))
       \<and> set (loadedItems (run_ops cfg ops this)) \<subseteq> {1..TOTAL_IMAGES cfg}"
proof (induction ops rule: rev_induct)
  case Nil
  show ?case using assms by (simp add: run_ops_def)
next
  case (snoc opn ops)
  show ?case
    using apply_op_invariant [of "run_ops cfg ops this" cfg opn] snoc.IH
    by (simp only: run_ops_snoc)
qed

text \<open>
  Claim C3. After any sequence of load-initial and load-more operations on a new
  manager the loaded identifiers lie in \<open>1..TOTAL_IMAGES\<close> and hold no identifier
  twice, and one more operation keeps every loaded identifier, so the size does not
  decrease.
\<close>

theorem loadedItems_invariant:
  "set (loadedItems (run_ops cfg ops (new_manager g li vc vb))) \<subseteq> {1..TOTAL_IMAGES cfg}
   \<and> distinct (loadedItems (run_ops cfg ops (new_manager g li vc vb)))
   \<and> set_size (loadedItems (run_ops cfg ops (new_manager g li vc vb)))
       \<le> set_size (loadedItems (snd (apply_op cfg opn (run_ops cfg ops (new_manager g li vc vb)))))
   \<and> set (loadedItems (run_ops cfg ops (new_manager g li vc vb)))
       \<subseteq> set (loadedItems (snd (apply_op cfg opn (run_ops cfg ops (new_manager g li vc vb)))))"
proof -
  let ?s = "run_ops cfg ops (new_manager g li vc vb)"
  have "distinct (loadedItems ?s) \<and> set (loadedItems ?s) \<subseteq> {1..TOTAL_IMAGES cfg}"
    by (rule run_ops_invariant) (simp_all add: new_manager_def)
  moreover obtain new where "loadedItems (snd (apply_op cfg opn ?s)) = loadedItems ?s @ new"
    using apply_op_loaded [of cfg opn ?s] by blast
  ultimately show ?thesis by (simp add: set_size_def)
qed

lemma filter_upto_length: "int (length (filter P [a..b])) \<le> max 0 (b - a + 1)"
proof -
  have "length (filter P [a..b]) \<le> length [a..b]" by (rule length_filter_le)
  then show ?thesis by simp
qed

lemma loadMoreItems_size:
  "set_size (loadedItems (snd (loadMoreItems cfg this)))
     \<le> max (set_size (loadedItems this)) (TOTAL_IMAGES cfg)"
proof -
  let ?n = "set_size (loadedItems this)"
  let ?E = "min (?n + BATCH_SIZE cfg) (TOTAL_IMAGES cfg)"
  have "int (length (filter (\<lambda>x. x \<notin> set (loadedItems this)) [?n + 1..?E]))
          \<le> max 0 (?E - (?n + 1) + 1)"
    by (rule filter_upto_length)
  then show ?thesis
    by (auto simp add: loadMoreItems_loaded set_size_def split: option.split)
qed

lemma replicate_snoc: "replicate (Suc k) x = replicate k x @ [x]"
  by (simp add: replicate_append_same)

lemma repeated_loadMoreItems_size:
  "set_size (loadedItems (run_ops cfg (replicate k LoadMore) this))
     \<le> max (set_size (loadedItems this)) (TOTAL_IMAGES cfg)"
proof (induction k)
  case 0
  show ?case by (simp add: run_ops_def)
next
  case (Suc k)
  let ?s = "run_ops cfg (replicate k LoadMore) this"
  have "set_size (loadedItems (snd (loadMoreItems cfg ?s)))
          \<le> max (set_size (loadedItems ?s)) (TOTAL_IMAGES cfg)"
    by (rule loadMoreItems_size)
  then have "set_size (loadedItems (snd (loadMoreItems cfg ?s)))
          \<le> max (set_size (loadedItems this)) (TOTAL_IMAGES cfg)"
    using Suc.IH by linarith
  then show ?case
    by (simp only: replicate_snoc run_ops_snoc apply_op.simps)
qed

lemma loadMoreItems_exhausted:
  assumes "TOTAL_IMAGES cfg \<le> set_size (loadedItems this)"
  shows "loadedItems (snd (loadMoreItems cfg this)) = loadedItems this"
    and "grid (snd (loadMoreItems cfg this)) = grid this"
proof -
  let ?n = "set_size (loadedItems this)"
  have empty: "[?n + 1..min (?n + BATCH_SIZE cfg) (TOTAL_IMAGES cfg)] = []"
    using assms by simp
  show "loadedItems (snd (loadMoreItems cfg this)) = loadedItems this"
    by (simp add: loadMoreItems_loaded empty split: option.split)
  show "grid (snd (loadMoreItems cfg this)) = grid this"
  proof (cases "viewMoreBtn this")
    case None
    then show ?thesis by (simp add: loadMoreItems_def)
  next
    case (Some b)
    show ?thesis
    proof (cases "disabled b")
      case True
      then show ?thesis using Some by (simp add: loadMoreItems_def)
    next
      case False
      show ?thesis
        by (simp add: loadMoreItems_unfold [OF Some False] Let_def empty
            updateViewMoreButton_fields loadItemsBatch_unfold split: option.split)
    qed
  qed
qed

lemma loadMoreItems_ok:
  assumes "viewMoreBtn this = Some b" and "\<not> disabled b" and "grid this \<noteq> None"
  shows "loadMoreItems cfg this =
           (None,
            updateViewMoreButton cfg
              ((snd (loadItemsBatch cfg
                       [set_size (loadedItems this) + 1..
                        min (set_size (loadedItems this) + BATCH_SIZE cfg) (TOTAL_IMAGES cfg)]
                       (this\<lparr>viewMoreBtn :=
                          Some (b\<lparr>disabled := True, textContent := ''Loading...''\<rparr>)\<rparr>)))
               \<lparr>viewMoreBtn :=
                  Some (b\<lparr>disabled := False, textContent := ''View More Jewellery''\<rparr>)\<rparr>))"
  using assms(3) by (simp add: loadMoreItems_unfold [OF assms(1,2)] Let_def)

lemma loadMoreItems_hidden:
  assumes "viewMoreBtn this = Some b" and "\<not> disabled b" and "grid this \<noteq> None"
  shows "fst (loadMoreItems cfg this) = None"
    and "viewMoreContainer (snd (loadMoreItems cfg this)) =
           (case viewMoreContainer this of
              None \<Rightarrow> None
            | Some _ \<Rightarrow>
                Some (TOTAL_IMAGES cfg \<le> set_size (loadedItems (snd (loadMoreItems cfg this)))))"
    and "viewMoreBtn (snd (loadMoreItems cfg this)) =
           Some (b\<lparr>disabled := False, textContent := ''View More Jewellery''\<rparr>)"
  by (simp_all add: loadMoreItems_ok [OF assms] updateViewMoreButton_hidden
      updateViewMoreButton_fields loadItemsBatch_fields split: option.split)

lemma loadInitialItems_ok:
  assumes "grid this \<noteq> None"
  shows "loadInitialItems cfg this =
           (None,
            updateViewMoreButton cfg
              (showLoading False
                 (snd (loadItemsBatch cfg [1..min (INITIAL_LOAD cfg) (TOTAL_IMAGES cfg)]
                         (showLoading True this)))))"
  using assms by (simp add: loadInitialItems_unfold)

lemma loadInitialItems_hidden:
  assumes "grid this \<noteq> None"
  shows "fst (loadInitialItems cfg this) = None"
    and "viewMoreContainer (snd (loadInitialItems cfg this)) =
           (case viewMoreContainer this of
              None \<Rightarrow> None
            | Some _ \<Rightarrow>
                Some (TOTAL_IMAGES cfg
                        \<le> set_size (loadedItems (snd (loadInitialItems cfg this)))))"
  by (simp_all add: loadInitialItems_ok [OF assms] updateViewMoreButton_hidden
      updateViewMoreButton_fields showLoading_fields loadItemsBatch_fields
      split: option.split)

text \<open>
  Claim C1. From every state, \<^verbatim>\<open>loadMoreItems\<close> on an enabled button requests the
  identifiers from the size plus one to the smaller of the size plus the batch size and
  the total, and the loaded set becomes its union with that range. When the size
  equals the total the call changes neither the loaded set nor the cards of the grid.
  Any number of calls leaves the size at most the larger of the size before and the
  total, so a size within the total stays within it. After a batch load that
  returns, by \<^verbatim>\<open>loadMoreItems\<close> or by \<^verbatim>\<open>loadInitialItems\<close>, the container of the
  button carries the class \<^verbatim>\<open>hidden\<close> exactly when the size is at least the total.
\<close>

theorem loadMoreItems_next_range:
  "(viewMoreBtn this = Some b \<and> \<not> disabled b \<longrightarrow>
      loadedItems (snd (loadMoreItems cfg this)) =
        loadedItems this @
        filter (\<lambda>x. x \<notin> set (loadedItems this))
          [set_size (loadedItems this) + 1..
           min (set_size (loadedItems this) + BATCH_SIZE cfg) (TOTAL_IMAGES cfg)]
    \<and> set (loadedItems (snd (loadMoreItems cfg this))) =
        set (loadedItems this) \<union>
        {set_size (loadedItems this) + 1..
         min (set_size (loadedItems this) + BATCH_SIZE cfg) (TOTAL_IMAGES cfg)})
   \<and> (set_size (loadedItems this) = TOTAL_IMAGES cfg \<longrightarrow>
        loadedItems (snd (loadMoreItems cfg this)) = loadedItems this
      \<and> grid (snd (loadMoreItems cfg this)) = grid this)
   \<and> set_size (loadedItems (run_ops cfg (replicate k LoadMore) this))
        \<le> max (set_size (loadedItems this)) (TOTAL_IMAGES cfg)
   \<and> (set_size (loadedItems this) \<le> TOTAL_IMAGES cfg \<longrightarrow>
        set_size (loadedItems (run_ops cfg (replicate k LoadMore) this)) \<le> TOTAL_IMAGES cfg)
   \<and> (viewMoreBtn this = Some b \<and> \<not> disabled b \<and> grid this \<noteq> None
        \<and> viewMoreContainer this \<noteq> None \<longrightarrow>
        viewMoreContainer (snd (loadMoreItems cfg this)) =
          Some (TOTAL_IMAGES cfg \<le> set_size (loadedItems (snd (loadMoreItems cfg this)))))
   \<and> (grid this \<noteq> None \<and> viewMoreContainer this \<noteq> None \<longrightarrow>
        viewMoreContainer (snd (loadInitialItems cfg this)) =
          Some (TOTAL_IMAGES cfg \<le> set_size (loadedItems (snd (loadInitialItems cfg this)))))"
proof -
  let ?n = "set_size (loadedItems this)"
  let ?E = "min (?n + BATCH_SIZE cfg) (TOTAL_IMAGES cfg)"
  have range: "loadedItems (snd (loadMoreItems cfg this)) =
                 loadedItems this @ filter (\<lambda>x. x \<notin> set (loadedItems this)) [?n + 1..?E]
             \<and> set (loadedItems (snd (loadMoreItems cfg this))) =
                 set (loadedItems this) \<union> {?n + 1..?E}"
    if "viewMoreBtn this = Some b \<and> \<not> disabled b"
  proof -
    have l: "loadedItems (snd (loadMoreItems cfg this)) =
               loadedItems this @ filter (\<lambda>x. x \<notin> set (loadedItems this)) [?n + 1..?E]"
      using that by (simp add: loadMoreItems_loaded)
    have "set (loadedItems this @ filter (\<lambda>x. x \<notin> set (loadedItems this)) [?n + 1..?E])
            = set (loadedItems this) \<union> {?n + 1..?E}"
      by auto
    then show ?thesis using l by simp
  qed
  have noop: "loadedItems (snd (loadMoreItems cfg this)) = loadedItems this
            \<and> grid (snd (loadMoreItems cfg this)) = grid this"
    if "?n = TOTAL_IMAGES cfg"
    using loadMoreItems_exhausted [of cfg this] that by simp
  have bound: "set_size (loadedItems (run_ops cfg (replicate k LoadMore) this))
                 \<le> max ?n (TOTAL_IMAGES cfg)"
    by (rule repeated_loadMoreItems_size)
  have bound': "set_size (loadedItems (run_ops cfg (replicate k LoadMore) this))
                  \<le> TOTAL_IMAGES cfg"
    if "?n \<le> TOTAL_IMAGES cfg"
    using bound that by linarith
  have more: "viewMoreContainer (snd (loadMoreItems cfg this)) =
                Some (TOTAL_IMAGES cfg \<le> set_size (loadedItems (snd (loadMoreItems cfg this))))"
    if "viewMoreBtn this = Some b \<and> \<not> disabled b \<and> grid this \<noteq> None
        \<and> viewMoreContainer this \<noteq> None"
    using that loadMoreItems_hidden(2) [of this b cfg] by auto
  have init: "viewMoreContainer (snd (loadInitialItems cfg this)) =
                Some (TOTAL_IMAGES cfg
                        \<le> set_size (loadedItems (snd (loadInitialItems cfg this))))"
    if "grid this \<noteq> None \<and> viewMoreContainer this \<noteq> None"
    using that loadInitialItems_hidden(2) [of this cfg] by auto
  from range noop bound bound' more init show ?thesis by blast
qed

lemma config_values:
  "TOTAL_IMAGES JEWELLERY_CONFIG = 36"
  "INITIAL_LOAD JEWELLERY_CONFIG = 8"
  "BATCH_SIZE JEWELLERY_CONFIG = 8"
  by (simp_all add: JEWELLERY_CONFIG_def)

lemma new_manager_fields:
  "grid (new_manager g li vc vb) = g"
  "loadingIndicator (new_manager g li vc vb) = li"
  "viewMoreContainer (new_manager g li vc vb) = vc"
  "viewMoreBtn (new_manager g li vc vb) = vb"
  "loadedItems (new_manager g li vc vb) = []"
  by (simp_all add: new_manager_def)

lemma upto_1_8: "[1..8] = [1, 2, 3, 4, 5, 6, 7, 8 :: int]"
  by (simp add: upto_rec1)

theorem loadMoreItems_next_range_witness:
  "loadedItems
     (snd (loadMoreItems JEWELLERY_CONFIG
             (new_manager (Some []) (Some True) (Some True)
                (Some \<lparr> disabled = False, textContent = ''View More Jewellery'' \<rparr>))))
     = [1, 2, 3, 4, 5, 6, 7, 8]
   \<and> viewMoreContainer
       (snd (loadMoreItems JEWELLERY_CONFIG
               (new_manager (Some []) (Some True) (Some True)
                  (Some \<lparr> disabled = False, textContent = ''View More Jewellery'' \<rparr>))))
     = Some False
   \<and> viewMoreContainer
       (snd (loadInitialItems JEWELLERY_CONFIG
               (new_manager (Some []) (Some True) (Some True)
                  (Some \<lparr> disabled = False, textContent = ''View More Jewellery'' \<rparr>))))
     = Some False
   \<and> set_size
       (loadedItems
          (run_ops JEWELLERY_CONFIG (replicate 7 LoadMore)
             (new_manager (Some []) (Some True) (Some True)
                (Some \<lparr> disabled = False, textContent = ''View More Jewellery'' \<rparr>))))
     \<le> 36
   \<and> loadedItems
       (snd (loadMoreItems JEWELLERY_CONFIG
               ((new_manager (Some []) (Some True) (Some False)
                   (Some \<lparr> disabled = False, textContent = ''View More Jewellery'' \<rparr>))
                \<lparr> loadedItems := [1..36] \<rparr>)))
     = [1..36]
   \<and> viewMoreContainer
       (snd (loadMoreItems JEWELLERY_CONFIG
               ((new_manager (Some []) (Some True) (Some False)
                   (Some \<lparr> disabled = False, textContent = ''View More Jewellery'' \<rparr>))
                \<lparr> loadedItems := [1..36] \<rparr>)))
     = Some True"
  using loadMoreItems_next_range
    [of "new_manager (Some []) (Some True) (Some True)
           (Some \<lparr> disabled = False, textContent = ''View More Jewellery'' \<rparr>)"
        "\<lparr> disabled = False, textContent = ''View More Jewellery'' \<rparr>"
        JEWELLERY_CONFIG 7]
    loadMoreItems_next_range
    [of "(new_manager (Some []) (Some True) (Some False)
            (Some \<lparr> disabled = False, textContent = ''View More Jewellery'' \<rparr>))
         \<lparr> loadedItems := [1..36] \<rparr>"
        "\<lparr> disabled = False, textContent = ''View More Jewellery'' \<rparr>"
        JEWELLERY_CONFIG 0]
    loadInitialItems_loaded
    [of JEWELLERY_CONFIG "new_manager (Some []) (Some True) (Some True)
           (Some \<lparr> disabled = False, textContent = ''View More Jewellery'' \<rparr>)"]
  by (simp add: new_manager_fields config_values set_size_def upto_1_8)

text \<open>
  Claim C2. From a manager with nothing loaded, \<^verbatim>\<open>loadInitialItems\<close> leaves exactly
  the identifiers from 1 to the smaller of the initial batch size and the total loaded,
  in this order; their number is that minimum when it is not negative. The call
  returns without an exception when the grid element exists, and into an empty grid it
  renders the cards of these identifiers.
\<close>

theorem loadInitialItems_from_empty:
  assumes "loadedItems this = []"
  shows "loadedItems (snd (loadInitialItems cfg this))
           = [1..min (INITIAL_LOAD cfg) (TOTAL_IMAGES cfg)]
       \<and> set (loadedItems (snd (loadInitialItems cfg this)))
           = {1..min (INITIAL_LOAD cfg) (TOTAL_IMAGES cfg)}
       \<and> (0 \<le> min (INITIAL_LOAD cfg) (TOTAL_IMAGES cfg) \<longrightarrow>
            set_size (loadedItems (snd (loadInitialItems cfg this)))
              = min (INITIAL_LOAD cfg) (TOTAL_IMAGES cfg))
       \<and> (grid this \<noteq> None \<longrightarrow> fst (loadInitialItems cfg this) = None)
       \<and> (grid this = Some [] \<longrightarrow>
            rendered_cards (snd (loadInitialItems cfg this))
              = map (make_card cfg) [1..min (INITIAL_LOAD cfg) (TOTAL_IMAGES cfg)])"
proof -
  let ?m = "min (INITIAL_LOAD cfg) (TOTAL_IMAGES cfg)"
  have l: "loadedItems (snd (loadInitialItems cfg this)) = [1..?m]"
    by (simp add: loadInitialItems_loaded assms)
  have c: "rendered_cards (snd (loadInitialItems cfg this)) = map (make_card cfg) [1..?m]"
    if "grid this = Some []"
    using that
    by (simp add: loadInitialItems_unfold rendered_cards_fields loadItemsBatch_cards
        showLoading_fields assms)
  have e: "fst (loadInitialItems cfg this) = None" if "grid this \<noteq> None"
    using that by (rule loadInitialItems_hidden(1))
  show ?thesis
    using c e by (simp add: l set_size_def)
qed

theorem loadInitialItems_from_empty_witness:
  "loadedItems
     (snd (loadInitialItems JEWELLERY_CONFIG
             (new_manager (Some []) (Some True) (Some True)
                (Some \<lparr> disabled = False, textContent = ''View More Jewellery'' \<rparr>))))
     = [1, 2, 3, 4, 5, 6, 7, 8]
   \<and> set_size
       (loadedItems
          (snd (loadInitialItems JEWELLERY_CONFIG
                  (new_manager (Some []) (Some True) (Some True)
                     (Some \<lparr> disabled = False, textContent = ''View More Jewellery'' \<rparr>)))))
     = 8
   \<and> fst (loadInitialItems JEWELLERY_CONFIG
             (new_manager (Some []) (Some True) (Some True)
                (Some \<lparr> disabled = False, textContent = ''View More Jewellery'' \<rparr>)))
     = None
   \<and> length
       (rendered_cards
          (snd (loadInitialItems JEWELLERY_CONFIG
                  (new_manager (Some []) (Some True) (Some True)
                     (Some \<lparr> disabled = False, textContent = ''View More Jewellery'' \<rparr>)))))
     = 8"
  using loadInitialItems_from_empty
    [of "new_manager (Some []) (Some True) (Some True)
           (Some \<lparr> disabled = False, textContent = ''View More Jewellery'' \<rparr>)"
        JEWELLERY_CONFIG]
  by (simp add: new_manager_fields config_values upto_1_8 set_size_def)

lemma distinct_count_list_one:
  assumes "distinct xs" and "x \<in> set xs"
  shows "count_list xs x = 1"
  using assms by (induction xs) auto

lemma card_item_id_make_card: "card_item_id (make_card cfg x) = number_to_string x"
  by (simp add: make_card_def createJewelleryCard_def item_property_def JewelleryItem_def)

section \<open>Numbers print injectively\<close>

lemma decimal_digits_acc: "decimal_digits n acc = decimal_digits n [] @ acc"
proof (induction n arbitrary: acc rule: less_induct)
  case (less n)
  show ?case
  proof (cases "n < 10")
    case True
    then show ?thesis by (simp add: decimal_digits.simps)
  next
    case False
    let ?d = "digit_char (n mod 10)"
    have lt: "n div 10 < n" using False by simp
    have "decimal_digits n acc = decimal_digits (n div 10) (?d # acc)"
      using False by (simp add: decimal_digits.simps [of n])
    also have "\<dots> = decimal_digits (n div 10) [] @ (?d # acc)"
      by (rule less.IH [OF lt])
    also have "\<dots> = (decimal_digits (n div 10) [] @ [?d]) @ acc"
      by simp
    also have "decimal_digits (n div 10) [] @ [?d] = decimal_digits (n div 10) [?d]"
      by (rule less.IH [OF lt, symmetric])
    also have "decimal_digits (n div 10) [?d] = decimal_digits n []"
      using False by (simp add: decimal_digits.simps [of n])
    finally show ?thesis .
  qed
qed

lemma decimal_digits_unfold:
  "decimal_digits n [] =
     (if n < 10 then [digit_char n]
      else decimal_digits (n div 10) [] @ [digit_char (n mod 10)])"
  using decimal_digits_acc [of "n div 10" "[digit_char (n mod 10)]"]
  by (simp add: decimal_digits.simps [of n])

lemma decimal_digits_not_empty: "decimal_digits n [] \<noteq> []"
  by (simp add: decimal_digits_unfold [of n])

lemma digit_cases:
  assumes "d < (10::nat)"
  shows "d = 0 \<or> d = 1 \<or> d = 2 \<or> d = 3 \<or> d = 4 \<or> d = 5 \<or> d = 6 \<or> d = 7 \<or> d = 8 \<or> d = 9"
  using assms by arith

lemma of_char_digit_char:
  assumes "d < 10"
  shows "of_char (digit_char d) = 48 + d"
  using digit_cases [OF assms] by (auto simp add: digit_char_def)

lemma digit_char_inject:
  assumes "d < 10" and "e < 10" and "digit_char d = digit_char e"
  shows "d = e"
proof -
  have "(of_char (digit_char d) :: nat) = of_char (digit_char e)"
    using assms(3) by simp
  then show ?thesis
    by (simp add: of_char_digit_char [OF assms(1)] of_char_digit_char [OF assms(2)])
qed

lemma digit_char_not_minus:
  assumes "d < 10"
  shows "digit_char d \<noteq> CHR ''-''"
  using digit_cases [OF assms] by (auto simp add: digit_char_def)

lemma decimal_digits_no_minus: "CHR ''-'' \<notin> set (decimal_digits n [])"
proof (induction n rule: less_induct)
  case (less n)
  show ?case
  proof (cases "n < 10")
    case True
    then show ?thesis
      using digit_char_not_minus [of n] by (auto simp add: decimal_digits_unfold [of n])
  next
    case False
    have "n div 10 < n" using False by simp
    then have "CHR ''-'' \<notin> set (decimal_digits (n div 10) [])" by (rule less.IH)
    moreover have "digit_char (n mod 10) \<noteq> CHR ''-''"
      by (rule digit_char_not_minus) simp
    ultimately show ?thesis
      using False by (auto simp add: decimal_digits_unfold [of n])
  qed
qed

lemma decimal_digits_inject:
  assumes "decimal_digits m [] = decimal_digits n []"
  shows "m = n"
  using assms
proof (induction m arbitrary: n rule: less_induct)
  case (less m)
  note eq = less.prems
  show ?case
  proof (cases "m < 10")
    case m: True
    show ?thesis
    proof (cases "n < 10")
      case True
      then show ?thesis
        using eq m digit_char_inject [of m n]
        by (simp add: decimal_digits_unfold [of m] decimal_digits_unfold [of n])
    next
      case False
      then show ?thesis
        using eq m decimal_digits_not_empty [of "n div 10"]
        by (simp add: decimal_digits_unfold [of m] decimal_digits_unfold [of n])
    qed
  next
    case m: False
    show ?thesis
    proof (cases "n < 10")
      case True
      then show ?thesis
        using eq m decimal_digits_not_empty [of "m div 10"]
        by (simp add: decimal_digits_unfold [of m] decimal_digits_unfold [of n])
    next
      case False
      have parts: "decimal_digits (m div 10) [] = decimal_digits (n div 10) []"
        "digit_char (m mod 10) = digit_char (n mod 10)"
        using eq m False
        by (simp_all add: decimal_digits_unfold [of m] decimal_digits_unfold [of n])
      have "m div 10 < m" using m by simp
      then have q: "m div 10 = n div 10" using parts(1) by (rule less.IH)
      have r: "m mod 10 = n mod 10"
        using parts(2) by (intro digit_char_inject) simp_all
      have "m = 10 * (m div 10) + m mod 10" by simp
      also have "\<dots> = 10 * (n div 10) + n mod 10" by (simp only: q r)
      also have "\<dots> = n" by simp
      finally show ?thesis .
    qed
  qed
qed

lemma number_to_string_inject:
  assumes "number_to_string i = number_to_string j"
  shows "i = j"
proof -
  have neg_pos: False
    if "CHR ''-'' # decimal_digits a [] = decimal_digits b []" for a b
  proof -
    have "CHR ''-'' \<in> set (decimal_digits b [])"
      by (simp flip: that)
    then show False using decimal_digits_no_minus [of b] by simp
  qed
  show ?thesis
  proof (cases "0 \<le> i")
    case i: True
    show ?thesis
    proof (cases "0 \<le> j")
      case True
      then have "nat i = nat j"
        using assms i by (intro decimal_digits_inject) (simp add: number_to_string_def)
      then show ?thesis using i True by simp
    next
      case False
      then show ?thesis
        using assms i neg_pos [of "nat (- j)" "nat i"] by (simp add: number_to_string_def)
    qed
  next
    case i: False
    show ?thesis
    proof (cases "0 \<le> j")
      case True
      then show ?thesis
        using assms i neg_pos [of "nat (- i)" "nat j"] by (simp add: number_to_string_def)
    next
      case False
      then have "nat (- i) = nat (- j)"
        using assms i by (intro decimal_digits_inject) (simp add: number_to_string_def)
      then show ?thesis using i False by simp
    qed
  qed
qed

section \<open>Cards and loaded identifiers agree\<close>

lemma batch_loop_consistent:
  assumes "map card_item_id (cs @ fragment) = map number_to_string loaded"
    and "distinct loaded"
  shows "map card_item_id (cs @ fst (batch_loop cfg ids (fragment, loaded)))
           = map number_to_string (snd (batch_loop cfg ids (fragment, loaded)))
       \<and> distinct (snd (batch_loop cfg ids (fragment, loaded)))"
  using assms
proof (induction ids arbitrary: fragment loaded)
  case Nil
  then show ?case by simp
next
  case (Cons x xs)
  show ?case
  proof (cases "x \<in> set loaded")
    case True
    then show ?thesis
      using Cons.IH [OF Cons.prems] by (simp add: set_has_def)
  next
    case False
    have a: "map card_item_id (cs @ fragment @ [make_card cfg x])
               = map number_to_string (loaded @ [x])"
      using Cons.prems(1) by (simp add: card_item_id_make_card)
    have b: "distinct (loaded @ [x])"
      using Cons.prems(2) False by simp
    show ?thesis
      using False Cons.IH [of "fragment @ [make_card cfg x]" "loaded @ [x]", OF a b]
      by (simp add: set_has_def set_add_def make_card_def)
  qed
qed

lemma loadItemsBatch_consistent:
  assumes "grid this \<noteq> None"
    and "map card_item_id (rendered_cards this) = map number_to_string (loadedItems this)"
    and "distinct (loadedItems this)"
  shows "grid (snd (loadItemsBatch cfg ids this)) \<noteq> None"
    and "map card_item_id (rendered_cards (snd (loadItemsBatch cfg ids this)))
           = map number_to_string (loadedItems (snd (loadItemsBatch cfg ids this)))"
    and "distinct (loadedItems (snd (loadItemsBatch cfg ids this)))"
proof -
  obtain children where g: "grid this = Some children"
    using assms(1) by blast
  have c: "map card_item_id (children @ []) = map number_to_string (loadedItems this)"
    using assms(2) by (simp add: rendered_cards_def g)
  note bl = batch_loop_consistent [OF c assms(3), of cfg ids]
  show "grid (snd (loadItemsBatch cfg ids this)) \<noteq> None"
    by (simp add: loadItemsBatch_unfold g)
  show "map card_item_id (rendered_cards (snd (loadItemsBatch cfg ids this)))
           = map number_to_string (loadedItems (snd (loadItemsBatch cfg ids this)))"
    using bl by (simp add: loadItemsBatch_unfold g rendered_cards_def)
  show "distinct (loadedItems (snd (loadItemsBatch cfg ids this)))"
    using bl by (simp add: loadItemsBatch_unfold g)
qed

lemma apply_op_batch:
  "\<exists>ids that. grid that = grid this \<and> loadedItems that = loadedItems this
       \<and> grid (snd (apply_op cfg opn this)) = grid (snd (loadItemsBatch cfg ids that))
       \<and> loadedItems (snd (apply_op cfg opn this))
           = loadedItems (snd (loadItemsBatch cfg ids that))"
proof (cases opn)
  case LoadInitial
  let ?that = "showLoading True this"
  let ?ids = "[1..min (INITIAL_LOAD cfg) (TOTAL_IMAGES cfg)]"
  have "grid ?that = grid this \<and> loadedItems ?that = loadedItems this"
    by (simp add: showLoading_fields)
  moreover have "grid (snd (apply_op cfg opn this)) = grid (snd (loadItemsBatch cfg ?ids ?that))
     \<and> loadedItems (snd (apply_op cfg opn this))
         = loadedItems (snd (loadItemsBatch cfg ?ids ?that))"
    by (simp add: LoadInitial loadInitialItems_unfold showLoading_fields
        updateViewMoreButton_fields)
  ultimately show ?thesis by blast
next
  case LoadMore
  show ?thesis
  proof (cases "\<exists>b. viewMoreBtn this = Some b \<and> \<not> disabled b")
    case True
    then obtain b where b: "viewMoreBtn this = Some b" "\<not> disabled b" by blast
    let ?that = "this\<lparr>viewMoreBtn :=
                   Some (b\<lparr>disabled := True, textContent := ''Loading...''\<rparr>)\<rparr>"
    let ?ids = "[set_size (loadedItems this) + 1..
                 min (set_size (loadedItems this) + BATCH_SIZE cfg) (TOTAL_IMAGES cfg)]"
    have "grid ?that = grid this \<and> loadedItems ?that = loadedItems this" by simp
    moreover have "grid (snd (apply_op cfg opn this))
                     = grid (snd (loadItemsBatch cfg ?ids ?that))
       \<and> loadedItems (snd (apply_op cfg opn this))
           = loadedItems (snd (loadItemsBatch cfg ?ids ?that))"
      by (simp add: LoadMore loadMoreItems_unfold [OF b] Let_def updateViewMoreButton_fields)
    ultimately show ?thesis by blast
  next
    case False
    then have same: "snd (apply_op cfg opn this) = this"
      by (auto simp add: LoadMore loadMoreItems_def split: option.split)
    have "snd (loadItemsBatch cfg [] this) = this"
      by (rule loadItemsBatch_present) simp
    then have "grid (snd (apply_op cfg opn this)) = grid (snd (loadItemsBatch cfg [] this))
       \<and> loadedItems (snd (apply_op cfg opn this))
           = loadedItems (snd (loadItemsBatch cfg [] this))"
      by (simp add: same)
    then show ?thesis by blast
  qed
qed

lemma apply_op_consistent:
  assumes "grid this \<noteq> None"
    and "map card_item_id (rendered_cards this) = map number_to_string (loadedItems this)"
    and "distinct (loadedItems this)"
  shows "grid (snd (apply_op cfg opn this)) \<noteq> None
       \<and> map card_item_id (rendered_cards (snd (apply_op cfg opn this)))
           = map number_to_string (loadedItems (snd (apply_op cfg opn this)))
       \<and> distinct (loadedItems (snd (apply_op cfg opn this)))"
proof -
  obtain ids that where t: "grid that = grid this" "loadedItems that = loadedItems this"
    "grid (snd (apply_op cfg opn this)) = grid (snd (loadItemsBatch cfg ids that))"
    "loadedItems (snd (apply_op cfg opn this)) = loadedItems (snd (loadItemsBatch cfg ids that))"
    using apply_op_batch [of this cfg opn] by blast
  have r: "rendered_cards that = rendered_cards this"
    "rendered_cards (snd (apply_op cfg opn this))
       = rendered_cards (snd (loadItemsBatch cfg ids that))"
    by (simp_all add: rendered_cards_def t)
  have a: "grid that \<noteq> None" using assms(1) by (simp add: t)
  have b: "map card_item_id (rendered_cards that) = map number_to_string (loadedItems that)"
    using assms(2) by (simp add: t r)
  have c: "distinct (loadedItems that)" using assms(3) by (simp add: t)
  show ?thesis
    using loadItemsBatch_consistent [OF a b c, of cfg ids] by (simp add: t r)
qed

lemma run_ops_consistent:
  "grid (run_ops cfg ops (new_manager (Some []) li vc vb)) \<noteq> None
   \<and> map card_item_id (rendered_cards (run_ops cfg ops (new_manager (Some []) li vc vb)))
       = map number_to_string (loadedItems (run_ops cfg ops (new_manager (Some []) li vc vb)))
   \<and> distinct (loadedItems (run_ops cfg ops (new_manager (Some []) li vc vb)))"
proof (induction ops rule: rev_induct)
  case Nil
  show ?case by (simp add: run_ops_def new_manager_fields rendered_cards_def)
next
  case (snoc opn ops)
  let ?s = "run_ops cfg ops (new_manager (Some []) li vc vb)"
  from snoc.IH have a: "grid ?s \<noteq> None"
    and b: "map card_item_id (rendered_cards ?s) = map number_to_string (loadedItems ?s)"
    and c: "distinct (loadedItems ?s)"
    by simp_all
  show ?case
    unfolding run_ops_snoc by (rule apply_op_consistent [OF a b c])
qed

lemma consistent_cards_for:
  assumes "map card_item_id (rendered_cards this) = map number_to_string (loadedItems this)"
    and "distinct (loadedItems this)"
  shows "cards_for x this = (if x \<in> set (loadedItems this) then 1 else 0)"
proof -
  have "cards_for x this
          = length (filter (\<lambda>s. s = number_to_string x) (map card_item_id (rendered_cards this)))"
    by (simp add: cards_for_def filter_map comp_def)
  also have "\<dots> = length (filter (\<lambda>y. number_to_string y = number_to_string x) (loadedItems this))"
    by (simp add: assms(1) filter_map comp_def)
  also have "\<dots> = length (filter (\<lambda>y. y = x) (loadedItems this))"
    by (rule arg_cong [where f = length], rule filter_cong)
       (auto dest: number_to_string_inject)
  also have "\<dots> = length (filter ((=) x) (loadedItems this))"
    by (rule arg_cong [where f = length], rule filter_cong) auto
  also have "\<dots> = count_list (loadedItems this) x"
    by (simp add: count_list_eq_length_filter)
  also have "\<dots> = (if x \<in> set (loadedItems this) then 1 else 0)"
    using assms(2) by (simp add: distinct_count_list_one)
  finally show ?thesis .
qed

lemma loadItemsBatch_netlify:
  assumes "list_all (\<lambda>c. data_netlify_src (whatsapp_btn c) = Some ''undefined'')
             (rendered_cards this)"
  shows "list_all (\<lambda>c. data_netlify_src (whatsapp_btn c) = Some ''undefined'')
           (rendered_cards (snd (loadItemsBatch cfg ids this)))"
proof -
  have "list_all (\<lambda>c. data_netlify_src (whatsapp_btn c) = Some ''undefined'')
          (fst (batch_loop cfg ids ([], loadedItems this)))"
    by (rule batch_loop_netlify) simp
  then show ?thesis
    using assms by (cases "grid this") (simp_all add: loadItemsBatch_unfold rendered_cards_def)
qed

lemma run_ops_netlify:
  "list_all (\<lambda>c. data_netlify_src (whatsapp_btn c) = Some ''undefined'')
     (rendered_cards (run_ops cfg ops (new_manager (Some []) li vc vb)))"
proof (induction ops rule: rev_induct)
  case Nil
  show ?case by (simp add: run_ops_def new_manager_fields rendered_cards_def)
next
  case (snoc opn ops)
  let ?s = "run_ops cfg ops (new_manager (Some []) li vc vb)"
  obtain ids that where t: "grid that = grid ?s"
    "grid (snd (apply_op cfg opn ?s)) = grid (snd (loadItemsBatch cfg ids that))"
    using apply_op_batch [of ?s cfg opn] by blast
  have "list_all (\<lambda>c. data_netlify_src (whatsapp_btn c) = Some ''undefined'')
          (rendered_cards that)"
    using snoc.IH by (simp add: rendered_cards_def t(1))
  then have "list_all (\<lambda>c. data_netlify_src (whatsapp_btn c) = Some ''undefined'')
          (rendered_cards (snd (loadItemsBatch cfg ids that)))"
    by (rule loadItemsBatch_netlify)
  then show ?case
    by (simp add: run_ops_snoc rendered_cards_def t(2))
qed

text \<open>
  Every state the two loading operations reach from a new manager with an empty grid
  has a grid element, holds no identifier twice, and shows one card for each loaded
  identifier and none for any other.
\<close>

lemma run_ops_cards_for:
  "cards_for x (run_ops cfg ops (new_manager (Some []) li vc vb))
     = (if x \<in> set (loadedItems (run_ops cfg ops (new_manager (Some []) li vc vb)))
        then 1 else 0)"
  using run_ops_consistent [of cfg ops li vc vb]
  by (intro consistent_cards_for) simp_all

section \<open>Loading a batch again\<close>

lemma batch_loop_skip_loaded:
  assumes "set l \<subseteq> set l'"
  shows "batch_loop cfg (filter (\<lambda>x. x \<notin> set l) xs) (f, l') = batch_loop cfg xs (f, l')"
  using assms
proof (induction xs arbitrary: f l')
  case Nil
  show ?case by simp
next
  case (Cons x xs)
  show ?case
  proof (cases "x \<in> set l'")
    case True
    then show ?thesis
      using Cons.IH [OF Cons.prems] by (simp add: set_has_def)
  next
    case False
    then have nl: "x \<notin> set l" using Cons.prems by blast
    have sub: "set l \<subseteq> set (l' @ [x])" using Cons.prems by auto
    show ?thesis
      using False nl Cons.IH [OF sub] by (simp add: set_has_def set_add_def)
  qed
qed

lemma loadItemsBatch_skip_loaded:
  "loadItemsBatch cfg (filter (\<lambda>y. y \<notin> set (loadedItems this)) ids) this
     = loadItemsBatch cfg ids this"
proof -
  have "batch_loop cfg (filter (\<lambda>y. y \<notin> set (loadedItems this)) ids) ([], loadedItems this)
          = batch_loop cfg ids ([], loadedItems this)"
    by (rule batch_loop_skip_loaded) simp
  then show ?thesis by (simp only: loadItemsBatch_unfold)
qed

lemma batch_loop_new:
  "\<exists>new. batch_loop cfg ids (f, l) = (f @ map (make_card cfg) new, l @ new)
       \<and> set new \<inter> set l = {} \<and> distinct new \<and> set new \<subseteq> set ids"
proof (induction ids arbitrary: f l)
  case Nil
  show ?case by simp
next
  case (Cons x xs)
  show ?case
  proof (cases "x \<in> set l")
    case True
    obtain new where "batch_loop cfg xs (f, l) = (f @ map (make_card cfg) new, l @ new)"
      "set new \<inter> set l = {}" "distinct new" "set new \<subseteq> set xs"
      using Cons.IH [of f l] by blast
    then have "batch_loop cfg (x # xs) (f, l) = (f @ map (make_card cfg) new, l @ new)
       \<and> set new \<inter> set l = {} \<and> distinct new \<and> set new \<subseteq> set (x # xs)"
      using True by (auto simp add: set_has_def)
    then show ?thesis by blast
  next
    case False
    obtain new where n: "batch_loop cfg xs (f @ [make_card cfg x], l @ [x])
                        = ((f @ [make_card cfg x]) @ map (make_card cfg) new, (l @ [x]) @ new)"
      "set new \<inter> set (l @ [x]) = {}" "distinct new" "set new \<subseteq> set xs"
      using Cons.IH [of "f @ [make_card cfg x]" "l @ [x]"] by blast
    have "batch_loop cfg (x # xs) (f, l) = (f @ map (make_card cfg) (x # new), l @ (x # new))"
      using False n(1) by (simp add: set_has_def set_add_def make_card_def)
    moreover have "set (x # new) \<inter> set l = {}" using False n(2) by auto
    moreover have "distinct (x # new)" using n(2,3) by auto
    moreover have "set (x # new) \<subseteq> set (x # xs)" using n(4) by auto
    ultimately show ?thesis by blast
  qed
qed

lemma count_list_notin: "y \<notin> set xs \<Longrightarrow> count_list xs y = 0"
  by (induction xs) auto

lemma loadItemsBatch_keeps_loaded:
  assumes "y \<in> set (loadedItems this)"
  shows "count_list (loadedItems (snd (loadItemsBatch cfg ids this))) y
           = count_list (loadedItems this) y"
    and "cards_for y (snd (loadItemsBatch cfg ids this)) = cards_for y this"
proof -
  obtain new where n: "batch_loop cfg ids ([], loadedItems this)
                         = ([] @ map (make_card cfg) new, loadedItems this @ new)"
    "set new \<inter> set (loadedItems this) = {}"
    using batch_loop_new [of cfg ids "[]" "loadedItems this"] by blast
  have y: "y \<notin> set new" using assms n(2) by blast
  show "count_list (loadedItems (snd (loadItemsBatch cfg ids this))) y
           = count_list (loadedItems this) y"
    using y by (simp add: loadItemsBatch_unfold n(1) count_list_notin split: option.split)
  have none: "filter (\<lambda>c. card_item_id c = number_to_string y) (map (make_card cfg) new) = []"
    using y by (auto simp add: filter_empty_conv card_item_id_make_card
        dest: number_to_string_inject)
  show "cards_for y (snd (loadItemsBatch cfg ids this)) = cards_for y this"
    by (cases "grid this")
       (simp_all add: loadItemsBatch_unfold n(1) cards_for_def rendered_cards_def none)
qed

text \<open>
  Claim C5. Take a state whose grid element exists. If no identifier is loaded twice
  and the grid shows one card for the safe integer \<open>x\<close> when \<open>x\<close> is loaded and none
  otherwise (as in every state the loading operations reach), then
  \<^verbatim>\<open>loadItemsBatch([x])\<close> returns without an exception, a second call returns without
  an exception and changes nothing, and after it \<open>x\<close> occurs once among the loaded
  identifiers and the grid shows one card for it. For any batch of safe integers the
  call returns without an exception and does what it does for the batch without the
  identifiers already loaded; for each such identifier it adds no entry and no card;
  and a batch of identifiers that are all loaded already changes nothing.
\<close>

theorem loadItemsBatch_twice:
  assumes "grid this \<noteq> None"
  shows "(safe_integer x \<and> distinct (loadedItems this)
          \<and> cards_for x this = (if x \<in> set (loadedItems this) then 1 else 0) \<longrightarrow>
            fst (loadItemsBatch cfg [x] this) = None
          \<and> loadItemsBatch cfg [x] (snd (loadItemsBatch cfg [x] this))
              = (None, snd (loadItemsBatch cfg [x] this))
          \<and> count_list
               (loadedItems (snd (loadItemsBatch cfg [x] (snd (loadItemsBatch cfg [x] this)))))
               x = 1
          \<and> cards_for x (snd (loadItemsBatch cfg [x] (snd (loadItemsBatch cfg [x] this)))) = 1)
       \<and> (list_all safe_integer ids \<longrightarrow>
            fst (loadItemsBatch cfg ids this) = None
          \<and> loadItemsBatch cfg ids this
              = loadItemsBatch cfg (filter (\<lambda>z. z \<notin> set (loadedItems this)) ids) this
          \<and> (safe_integer y \<and> y \<in> set (loadedItems this) \<longrightarrow>
               count_list (loadedItems (snd (loadItemsBatch cfg ids this))) y
                 = count_list (loadedItems this) y
             \<and> cards_for y (snd (loadItemsBatch cfg ids this)) = cards_for y this)
          \<and> (set ids \<subseteq> set (loadedItems this) \<longrightarrow>
               loadItemsBatch cfg ids this = (None, this)))"
proof -
  let ?s1 = "snd (loadItemsBatch cfg [x] this)"
  have ok: "fst (loadItemsBatch cfg js this) = None" for js
    using assms by (simp add: loadItemsBatch_error)
  have g1: "grid ?s1 \<noteq> None"
    using assms by (auto simp add: loadItemsBatch_unfold)
  have present: "loadItemsBatch cfg js that = (None, that)"
    if "set js \<subseteq> set (loadedItems that)" and "grid that \<noteq> None" for js that
  proof -
    have "fst (loadItemsBatch cfg js that) = None"
      using that(2) by (simp add: loadItemsBatch_error)
    moreover have "snd (loadItemsBatch cfg js that) = that"
      using that(1) by (rule loadItemsBatch_present)
    ultimately show ?thesis by (simp add: prod_eq_iff)
  qed
  have l1: "loadedItems ?s1 = loadedItems this @ (if x \<in> set (loadedItems this) then [] else [x])"
    by (simp add: loadItemsBatch_loaded)
  then have mem: "set [x] \<subseteq> set (loadedItems ?s1)" by simp
  have second: "loadItemsBatch cfg [x] ?s1 = (None, ?s1)"
    using mem g1 by (rule present)
  have twice: "count_list (loadedItems (snd (loadItemsBatch cfg [x] ?s1))) x = 1
             \<and> cards_for x (snd (loadItemsBatch cfg [x] ?s1)) = 1"
    if d: "distinct (loadedItems this)"
      and c: "cards_for x this = (if x \<in> set (loadedItems this) then 1 else 0)"
  proof -
    have d1: "distinct (loadedItems ?s1)"
      using d by (simp add: l1)
    have count: "count_list (loadedItems ?s1) x = 1"
      using d1 mem by (intro distinct_count_list_one) simp_all
    obtain children where g: "grid this = Some children"
      using assms by blast
    have "rendered_cards ?s1 =
            children @ (if x \<in> set (loadedItems this) then [] else [make_card cfg x])"
      by (simp add: loadItemsBatch_cards g)
    moreover have "rendered_cards this = children"
      by (simp add: rendered_cards_def g)
    ultimately have "cards_for x ?s1 = 1"
      using c by (simp add: cards_for_def card_item_id_make_card)
    then show ?thesis using count by (simp add: second)
  qed
  have skip: "loadItemsBatch cfg ids this
                = loadItemsBatch cfg (filter (\<lambda>z. z \<notin> set (loadedItems this)) ids) this"
    by (rule loadItemsBatch_skip_loaded [symmetric])
  have keep: "count_list (loadedItems (snd (loadItemsBatch cfg ids this))) y
                 = count_list (loadedItems this) y
             \<and> cards_for y (snd (loadItemsBatch cfg ids this)) = cards_for y this"
    if "y \<in> set (loadedItems this)"
    using loadItemsBatch_keeps_loaded [OF that, of cfg ids] by blast
  have all: "loadItemsBatch cfg ids this = (None, this)"
    if "set ids \<subseteq> set (loadedItems this)"
    using that assms by (rule present)
  from ok [of "[x]"] ok [of ids] second twice skip keep all show ?thesis by blast
qed

theorem loadItemsBatch_twice_witness:
  "fst (loadItemsBatch JEWELLERY_CONFIG [3] (new_manager (Some []) None None None)) = None
   \<and> loadItemsBatch JEWELLERY_CONFIG [3]
       (snd (loadItemsBatch JEWELLERY_CONFIG [3] (new_manager (Some []) None None None)))
     = (None, snd (loadItemsBatch JEWELLERY_CONFIG [3] (new_manager (Some []) None None None)))
   \<and> count_list
       (loadedItems
          (snd (loadItemsBatch JEWELLERY_CONFIG [3]
                  (snd (loadItemsBatch JEWELLERY_CONFIG [3]
                          (new_manager (Some []) None None None)))))) 3 = 1
   \<and> cards_for 3
       (snd (loadItemsBatch JEWELLERY_CONFIG [3]
               (snd (loadItemsBatch JEWELLERY_CONFIG [3]
                       (new_manager (Some []) None None None))))) = 1
   \<and> fst (loadItemsBatch JEWELLERY_CONFIG [3, 4]
            (snd (loadItemsBatch JEWELLERY_CONFIG [3] (new_manager (Some []) None None None))))
     = None
   \<and> loadedItems
       (snd (loadItemsBatch JEWELLERY_CONFIG [3, 4]
               (snd (loadItemsBatch JEWELLERY_CONFIG [3]
                       (new_manager (Some []) None None None))))) = [3, 4]
   \<and> count_list
       (loadedItems
          (snd (loadItemsBatch JEWELLERY_CONFIG [3, 4]
                  (snd (loadItemsBatch JEWELLERY_CONFIG [3]
                          (new_manager (Some []) None None None)))))) 3 = 1
   \<and> cards_for 3
       (snd (loadItemsBatch JEWELLERY_CONFIG [3, 4]
               (snd (loadItemsBatch JEWELLERY_CONFIG [3]
                       (new_manager (Some []) None None None))))) = 1"
proof -
  let ?s0 = "new_manager (Some []) None None None"
  let ?s1 = "snd (loadItemsBatch JEWELLERY_CONFIG [3] ?s0)"
  have safe: "safe_integer 3" "list_all safe_integer [3, 4]"
    by (simp_all add: safe_integer_def MAX_SAFE_INTEGER_def)
  have g0: "grid ?s0 \<noteq> None"
    by (simp add: new_manager_fields)
  have d0: "distinct (loadedItems ?s0)"
    by (simp add: new_manager_fields)
  have c0: "cards_for 3 ?s0 = (if 3 \<in> set (loadedItems ?s0) then 1 else 0)"
    by (simp add: cards_for_def rendered_cards_def new_manager_fields)
  have l1: "loadedItems ?s1 = [3]"
    by (simp add: loadItemsBatch_loaded new_manager_fields)
  have g1: "grid ?s1 \<noteq> None"
    by (simp add: loadItemsBatch_unfold new_manager_fields)
  have m1: "3 \<in> set (loadedItems ?s1)"
    by (simp add: l1)
  note first = loadItemsBatch_twice [OF g0, of 3 JEWELLERY_CONFIG "[]" 3]
  note mixed = loadItemsBatch_twice [OF g1, of 3 JEWELLERY_CONFIG "[3, 4]" 3]
  have x: "fst (loadItemsBatch JEWELLERY_CONFIG [3] ?s0) = None"
    "loadItemsBatch JEWELLERY_CONFIG [3] ?s1 = (None, ?s1)"
    "count_list (loadedItems (snd (loadItemsBatch JEWELLERY_CONFIG [3] ?s1))) 3 = 1"
    "cards_for 3 (snd (loadItemsBatch JEWELLERY_CONFIG [3] ?s1)) = 1"
    using first safe(1) d0 c0 by blast+
  have c1: "cards_for 3 ?s1 = 1" "count_list (loadedItems ?s1) 3 = 1"
    using x(3,4) by (simp_all add: x(2))
  have b: "fst (loadItemsBatch JEWELLERY_CONFIG [3, 4] ?s1) = None"
    "count_list (loadedItems (snd (loadItemsBatch JEWELLERY_CONFIG [3, 4] ?s1))) 3
       = count_list (loadedItems ?s1) 3"
    "cards_for 3 (snd (loadItemsBatch JEWELLERY_CONFIG [3, 4] ?s1)) = cards_for 3 ?s1"
    using mixed safe m1 by blast+
  have l2: "loadedItems (snd (loadItemsBatch JEWELLERY_CONFIG [3, 4] ?s1)) = [3, 4]"
    by (simp add: loadItemsBatch_loaded l1)
  show ?thesis
    using x b c1 l2 by simp
qed

text \<open>
  A session with the configured constants: the initial load shows the identifiers 1 to
  8, one load-more 1 to 16, four more all 36 with the container of the button hidden,
  and one more call after that changes nothing.
\<close>

lemma example_session:
  "loadedItems
     (run_ops JEWELLERY_CONFIG [LoadInitial]
        (new_manager (Some []) (Some True) (Some True)
           (Some \<lparr> disabled = False, textContent = ''View More Jewellery'' \<rparr>)))
     = [1, 2, 3, 4, 5, 6, 7, 8]
   \<and> loadedItems
     (run_ops JEWELLERY_CONFIG [LoadInitial, LoadMore]
        (new_manager (Some []) (Some True) (Some True)
           (Some \<lparr> disabled = False, textContent = ''View More Jewellery'' \<rparr>)))
     = [1, 2, 3, 4, 5, 6, 7, 8, 9, 10, 11, 12, 13, 14, 15, 16]
   \<and> viewMoreContainer
     (run_ops JEWELLERY_CONFIG [LoadInitial, LoadMore]
        (new_manager (Some []) (Some True) (Some True)
           (Some \<lparr> disabled = False, textContent = ''View More Jewellery'' \<rparr>)))
     = Some False
   \<and> set_size (loadedItems
     (run_ops JEWELLERY_CONFIG [LoadInitial, LoadMore, LoadMore, LoadMore, LoadMore, LoadMore]
        (new_manager (Some []) (Some True) (Some True)
           (Some \<lparr> disabled = False, textContent = ''View More Jewellery'' \<rparr>))))
     = 36
   \<and> length (rendered_cards
     (run_ops JEWELLERY_CONFIG [LoadInitial, LoadMore, LoadMore, LoadMore, LoadMore, LoadMore]
        (new_manager (Some []) (Some True) (Some True)
           (Some \<lparr> disabled = False, textContent = ''View More Jewellery'' \<rparr>))))
     = 36
   \<and> viewMoreContainer
     (run_ops JEWELLERY_CONFIG [LoadInitial, LoadMore, LoadMore, LoadMore, LoadMore, LoadMore]
        (new_manager (Some []) (Some True) (Some True)
           (Some \<lparr> disabled = False, textContent = ''View More Jewellery'' \<rparr>)))
     = Some True
   \<and> run_ops JEWELLERY_CONFIG
        [LoadInitial, LoadMore, LoadMore, LoadMore, LoadMore, LoadMore, LoadMore]
        (new_manager (Some []) (Some True) (Some True)
           (Some \<lparr> disabled = False, textContent = ''View More Jewellery'' \<rparr>))
     = run_ops JEWELLERY_CONFIG
        [LoadInitial, LoadMore, LoadMore, LoadMore, LoadMore, LoadMore]
        (new_manager (Some []) (Some True) (Some True)
           (Some \<lparr> disabled = False, textContent = ''View More Jewellery'' \<rparr>))"
  by code_simp

text \<open>
  Claim C9. An item has no property \<^verbatim>\<open>netlifyImageUrl\<close>, so the card built for it
  carries the text \<^verbatim>\<open>undefined\<close> as its \<^verbatim>\<open>data-netlify-src\<close>; so does every card a
  batch load puts into its fragment, and every card in the grid after any sequence of
  loading operations on a new manager with an empty grid.
\<close>

theorem card_netlify_src_undefined:
  "item_property (JewelleryItem cfg i) ''netlifyImageUrl'' = Undefined
   \<and> data_netlify_src (whatsapp_btn (createJewelleryCard (JewelleryItem cfg i)))
       = Some ''undefined''
   \<and> list_all (\<lambda>c. data_netlify_src (whatsapp_btn c) = Some ''undefined'')
        (fst (batch_loop cfg ids ([], loaded)))
   \<and> list_all (\<lambda>c. data_netlify_src (whatsapp_btn c) = Some ''undefined'')
        (rendered_cards (run_ops cfg ops (new_manager (Some []) li vc vb)))"
proof -
  have "item_property (JewelleryItem cfg i) ''netlifyImageUrl'' = Undefined"
    by (simp add: item_property_def)
  moreover have "list_all (\<lambda>c. data_netlify_src (whatsapp_btn c) = Some ''undefined'')
        (fst (batch_loop cfg ids ([], loaded)))"
    by (rule batch_loop_netlify) simp
  moreover have "list_all (\<lambda>c. data_netlify_src (whatsapp_btn c) = Some ''undefined'')
        (rendered_cards (run_ops cfg ops (new_manager (Some []) li vc vb)))"
    by (rule run_ops_netlify)
  ultimately show ?thesis by (simp add: createJewelleryCard_netlify)
qed

end
